theory Spec2Isabelle
  imports Complex_Main
begin

section \<open>RFContext: the editing session of RetopoFlow (rfmode/rfcontext.py)\<close>

text \<open>
  The session object \<open>RFContext\<close> owns the target mesh, the undo and redo stacks, the
  active tool and the finite-state machine of the modal loop, and it answers spatial
  queries over the list of source meshes.

  Objects of class \<open>RFTarget\<close> are mutable and shared by reference, so they live in an
  explicit store: an address is an index into the list \<open>heap\<close>, and \<open>copy.deepcopy\<close>
  allocates a new cell holding an equal value. Tools are opaque references of type \<open>'t\<close>.
  Calls into collaborators that are outside this file (tool lifecycle, renderer, cursor,
  widget, alerts, instrumentation) are recorded, in order, in the list \<open>effects\<close>.
\<close>

subsection \<open>Data\<close>

type_synonym addr = nat

datatype pyvalue = PyNone | PyBool bool

text \<open>Python truth value of a returned object: \<open>None\<close> and \<open>False\<close> are falsy.\<close>

fun truthy :: "pyvalue \<Rightarrow> bool" where
  "truthy PyNone = False"
| "truthy (PyBool b) = b"

datatype 't effect =
    ToolStart 't
  | ToolUpdateOptions 't
  | ToolUpdate 't
  | ToolSelectionMin 't
  | ToolSelectionMax 't
  | ReplaceRfmesh addr
  | InstrumentWrite string
  | ToggleToolHelp
  | RemoveBackup
  | SaveBackup
  | WidgetClear
  | WidgetUpdate
  | Unuse string
  | SetCursor string
  | AlertUser string
  | ProfilerPrintout
  | ProfilerClear

text \<open>The dictionary built by \<open>_create_state\<close>: keys \<open>'action'\<close>, \<open>'tool'\<close>, \<open>'rftarget'\<close>.\<close>

record 't state =
  action :: string
  s_tool :: 't
  s_rftarget :: addr

type_synonym Point = "real \<times> real \<times> real"
type_synonym Normal = "real \<times> real \<times> real"
type_synonym Point2D = "real \<times> real"

text \<open>
  The attributes of \<open>RFContext\<close> that the modelled methods read or write. The deques
  \<open>undo\<close> and \<open>redo\<close> are lists whose right end is the last element (\<open>append\<close> and
  \<open>pop\<close> work there, \<open>popleft\<close> removes the head). \<open>tool\<close> is set by \<open>__init__\<close>
  before any other method runs, so \<open>hasattr(self, 'tool')\<close> holds in every context.
  \<open>hit_pos\<close> and \<open>hit_norm\<close> are the two attributes of \<open>self.actions\<close> that \<open>modal\<close> writes.
\<close>

record ('t, 'm) rfcontext =
  undo :: "'t state list"
  redo :: "'t state list"
  tool :: 't
  rftarget :: addr
  heap :: "'m list"
  mode :: string
  nav :: bool
  exit :: bool
  time_to_save :: "real option"
  hit_pos :: "Point option"
  hit_norm :: "Normal option"
  effects :: "'t effect list"

text \<open>
  What the methods use of the rest of the repository, as parameters: the \<open>RFTarget\<close>
  methods \<open>rewrap\<close> and \<open>dirty\<close> (they act on the mesh object in place), the global
  \<open>options['instrument']\<close>, the registry \<open>RFTool.action_tool\<close> (each constructor is
  given by the tool instance it builds) and the select-all mutation of the target.
\<close>

record ('t, 'm) ext =
  rewrap :: "'m \<Rightarrow> 'm"
  dirty :: "'m \<Rightarrow> 'm"
  instrument :: bool
  action_tool :: "(string \<times> 't) list"
  select_toggle :: "'m \<Rightarrow> 'm"

text \<open>The class attribute \<open>undo_depth = 100\<close>.\<close>

definition undo_depth :: nat where
  "undo_depth = 100"

subsection \<open>Tool switching\<close>

definition set_tool :: "'t \<Rightarrow> bool \<Rightarrow> ('t, 'm) rfcontext \<Rightarrow> ('t, 'm) rfcontext" where
  "set_tool t forceUpdate ctx =
     (if \<not> forceUpdate \<and> tool ctx = t then ctx
      else ctx\<lparr>tool := t,
               effects := effects ctx @
                 [ToolStart t, ToolUpdateOptions t, ToolUpdate t,
                  ToolSelectionMin t, ToolSelectionMax t]\<rparr>)"

subsection \<open>Undo / redo stack operations\<close>

text \<open>
  \<open>_create_state\<close>: the snapshot refers to the current tool and to a deep copy of the
  target, a new object in the store whose value is that of the live mesh.
\<close>

definition create_state ::
  "string \<Rightarrow> ('t, 'm) rfcontext \<Rightarrow> 't state \<times> ('t, 'm) rfcontext" where
  "create_state a ctx =
     (\<lparr>action = a, s_tool = tool ctx, s_rftarget = length (heap ctx)\<rparr>,
      ctx\<lparr>heap := heap ctx @ [heap ctx ! rftarget ctx]\<rparr>)"

text \<open>
  \<open>_restore_state\<close>: the snapshot's mesh object itself becomes the live target (no copy),
  then \<open>rewrap()\<close> and \<open>dirty()\<close> run on it, the renderer is pointed to it and the
  snapshot's tool is activated with \<open>forceUpdate=True\<close>.
\<close>

definition restore_state ::
  "('t, 'm) ext \<Rightarrow> 't state \<Rightarrow> ('t, 'm) rfcontext \<Rightarrow> ('t, 'm) rfcontext" where
  "restore_state X s ctx =
     (let c1 = ctx\<lparr>rftarget := s_rftarget s\<rparr>;
          c2 = c1\<lparr>heap := (heap c1)[rftarget c1 := rewrap X (heap c1 ! rftarget c1)]\<rparr>;
          c3 = c2\<lparr>heap := (heap c2)[rftarget c2 := dirty X (heap c2 ! rftarget c2)]\<rparr>;
          c4 = c3\<lparr>effects := effects c3 @ [ReplaceRfmesh (rftarget c3)]\<rparr>
      in set_tool (s_tool s) True c4)"

definition instrument_write ::
  "('t, 'm) ext \<Rightarrow> string \<Rightarrow> ('t, 'm) rfcontext \<Rightarrow> ('t, 'm) rfcontext" where
  "instrument_write X a ctx =
     (if \<not> instrument X then ctx
      else ctx\<lparr>effects := effects ctx @ [InstrumentWrite a]\<rparr>)"

text \<open>The loop \<open>while len(self.undo) > self.undo_depth: self.undo.popleft()\<close>.\<close>

function limit_stack :: "nat \<Rightarrow> 'a list \<Rightarrow> 'a list" where
  "limit_stack d xs = (if length xs > d then limit_stack d (tl xs) else xs)"
  by pat_completeness auto
termination
  by (relation "measure (\<lambda>(d, xs). length xs)") auto

declare limit_stack.simps [simp del]

definition undo_push ::
  "('t, 'm) ext \<Rightarrow> string \<Rightarrow> bool \<Rightarrow> ('t, 'm) rfcontext \<Rightarrow> pyvalue \<times> ('t, 'm) rfcontext" where
  "undo_push X a repeatable ctx =
     (if repeatable \<and> undo ctx \<noteq> [] \<and> action (last (undo ctx)) = a then (PyNone, ctx)
      else
        let (s, c1) = create_state a ctx;
            c2 = c1\<lparr>undo := undo c1 @ [s]\<rparr>;
            c3 = c2\<lparr>undo := limit_stack undo_depth (undo c2)\<rparr>;
            c4 = c3\<lparr>redo := []\<rparr>
        in (PyNone, instrument_write X a c4))"

definition undo_pop ::
  "('t, 'm) ext \<Rightarrow> ('t, 'm) rfcontext \<Rightarrow> pyvalue \<times> ('t, 'm) rfcontext" where
  "undo_pop X ctx =
     (if undo ctx = [] then (PyNone, ctx)
      else
        let (s, c1) = create_state ''undo'' ctx;
            c2 = c1\<lparr>redo := redo c1 @ [s]\<rparr>;
            top = last (undo c2);
            c3 = c2\<lparr>undo := butlast (undo c2)\<rparr>;
            c4 = restore_state X top c3
        in (PyNone, instrument_write X ''undo'' c4))"

definition undo_cancel ::
  "('t, 'm) ext \<Rightarrow> ('t, 'm) rfcontext \<Rightarrow> pyvalue \<times> ('t, 'm) rfcontext" where
  "undo_cancel X ctx =
     (if undo ctx = [] then (PyNone, ctx)
      else
        let top = last (undo ctx);
            c1 = ctx\<lparr>undo := butlast (undo ctx)\<rparr>;
            c2 = restore_state X top c1
        in (PyNone, instrument_write X ''cancel (undo)'' c2))"

definition redo_pop ::
  "('t, 'm) ext \<Rightarrow> ('t, 'm) rfcontext \<Rightarrow> pyvalue \<times> ('t, 'm) rfcontext" where
  "redo_pop X ctx =
     (if redo ctx = [] then (PyNone, ctx)
      else
        let (s, c1) = create_state ''redo'' ctx;
            c2 = c1\<lparr>undo := undo c1 @ [s]\<rparr>;
            top = last (redo c2);
            c3 = c2\<lparr>redo := butlast (redo c2)\<rparr>;
            c4 = restore_state X top c3
        in (PyNone, instrument_write X ''redo'' c4))"

text \<open>A tool (or any caller) mutating the live target mesh in place.\<close>

definition mutate :: "('m \<Rightarrow> 'm) \<Rightarrow> ('t, 'm) rfcontext \<Rightarrow> ('t, 'm) rfcontext" where
  "mutate f ctx = ctx\<lparr>heap := (heap ctx)[rftarget ctx := f (heap ctx ! rftarget ctx)]\<rparr>"

definition live_mesh :: "('t, 'm) rfcontext \<Rightarrow> 'm" where
  "live_mesh ctx = heap ctx ! rftarget ctx"

text \<open>The mesh values held by the snapshots of a stack, oldest first.\<close>

definition stored :: "('t, 'm) rfcontext \<Rightarrow> 't state list \<Rightarrow> 'm list" where
  "stored ctx ss = map (\<lambda>s. heap ctx ! s_rftarget s) ss"

text \<open>
  The end of \<open>__init__\<close>: the tool is set, then \<open>undo_push('initial')\<close> and
  \<open>undo_cancel()\<close> run on empty stacks. The target object built by \<open>_init_target\<close> is
  the first cell of the store.
\<close>

definition init_base :: "'t \<Rightarrow> 'm \<Rightarrow> ('t, 'm) rfcontext" where
  "init_base t m =
     \<lparr>undo = [], redo = [], tool = t, rftarget = 0, heap = [m], mode = ''main'',
      nav = False, exit = False, time_to_save = None, hit_pos = None, hit_norm = None,
      effects = [ToolStart t, ToolUpdateOptions t, ToolUpdate t,
                 ToolSelectionMin t, ToolSelectionMax t]\<rparr>"

definition init_context :: "('t, 'm) ext \<Rightarrow> 't \<Rightarrow> 'm \<Rightarrow> ('t, 'm) rfcontext" where
  "init_context X t m = snd (undo_cancel X (snd (undo_push X ''initial'' False (init_base t m))))"

text \<open>
  Well-formed contexts: every reference points into the store, and the live target and
  the snapshots of both stacks are pairwise different objects.
\<close>

definition well_formed :: "('t, 'm) rfcontext \<Rightarrow> bool" where
  "well_formed ctx \<longleftrightarrow>
     rftarget ctx < length (heap ctx) \<and>
     list_all (\<lambda>s. s_rftarget s < length (heap ctx)) (undo ctx @ redo ctx) \<and>
     distinct (rftarget ctx # map s_rftarget (undo ctx @ redo ctx))"

text \<open>A session as a list of operations on the context.\<close>

datatype ('t, 'm) op =
    Push string bool
  | UndoPop
  | RedoPop
  | UndoCancel
  | Mutate "'m \<Rightarrow> 'm"
  | SetTool 't

fun apply_op :: "('t, 'm) ext \<Rightarrow> ('t, 'm) op \<Rightarrow> ('t, 'm) rfcontext \<Rightarrow> ('t, 'm) rfcontext" where
  "apply_op X (Push a r) ctx = snd (undo_push X a r ctx)"
| "apply_op X UndoPop ctx = snd (undo_pop X ctx)"
| "apply_op X RedoPop ctx = snd (redo_pop X ctx)"
| "apply_op X UndoCancel ctx = snd (undo_cancel X ctx)"
| "apply_op X (Mutate f) ctx = mutate f ctx"
| "apply_op X (SetTool t) ctx = set_tool t False ctx"

fun run :: "('t, 'm) ext \<Rightarrow> ('t, 'm) op list \<Rightarrow> ('t, 'm) rfcontext \<Rightarrow> ('t, 'm) rfcontext" where
  "run X [] ctx = ctx"
| "run X (x # xs) ctx = run X xs (apply_op X x ctx)"

text \<open>
  \<open>N\<close> pushes with \<open>repeatable=False\<close>, the live mesh being mutated after each push,
  and \<open>M\<close> calls of \<open>undo_pop\<close>.
\<close>

fun push_mutate ::
  "('t, 'm) ext \<Rightarrow> (string \<times> ('m \<Rightarrow> 'm)) list \<Rightarrow> ('t, 'm) rfcontext \<Rightarrow> ('t, 'm) rfcontext" where
  "push_mutate X [] ctx = ctx"
| "push_mutate X ((a, f) # steps) ctx =
     push_mutate X steps (mutate f (snd (undo_push X a False ctx)))"

fun pops :: "('t, 'm) ext \<Rightarrow> nat \<Rightarrow> ('t, 'm) rfcontext \<Rightarrow> ('t, 'm) rfcontext" where
  "pops X 0 ctx = ctx"
| "pops X (Suc n) ctx = pops X n (snd (undo_pop X ctx))"

text \<open>The guard of \<open>undo_push\<close>: the push is skipped as a repeat of the top action.\<close>

definition skipped :: "string \<Rightarrow> bool \<Rightarrow> ('t, 'm) rfcontext \<Rightarrow> bool" where
  "skipped a r ctx \<longleftrightarrow> r \<and> undo ctx \<noteq> [] \<and> action (last (undo ctx)) = a"

text \<open>Both stacks together hold at most \<open>undo_depth\<close> snapshots.\<close>

definition bounded :: "('t, 'm) rfcontext \<Rightarrow> bool" where
  "bounded ctx \<longleftrightarrow> length (undo ctx) + length (redo ctx) \<le> undo_depth"

subsection \<open>A concrete session\<close>

text \<open>
  Tools are numbers; a mesh is a pair of a geometry value and a version counter that
  \<open>dirty\<close> increments.
\<close>

definition example_ext :: "(nat, int \<times> nat) ext" where
  "example_ext = \<lparr>rewrap = (\<lambda>m. m), dirty = (\<lambda>(g, v). (g, Suc v)), instrument = True,
     action_tool = [(''T'', 7)], select_toggle = (\<lambda>(g, v). (- g, v))\<rparr>"

definition example_ctx :: "(nat, int \<times> nat) rfcontext" where
  "example_ctx = init_context example_ext 1 (10, 0)"

definition example_steps :: "(string \<times> (int \<times> nat \<Rightarrow> int \<times> nat)) list" where
  "example_steps = [(''a'', (\<lambda>(g, v). (g + 1, v))), (''b'', (\<lambda>(g, v). (g * 2, v)))]"

definition example_pushed :: "(nat, int \<times> nat) rfcontext" where
  "example_pushed = snd (undo_push example_ext ''move'' False example_ctx)"

definition example_undone :: "(nat, int \<times> nat) rfcontext" where
  "example_undone =
     snd (undo_pop example_ext
       (push_mutate example_ext
          [(''move'', (\<lambda>(g, v). (g + 1, v))), (''move'', (\<lambda>(g, v). (g * 2, v)))] example_ctx))"

definition example_full :: "(nat, int \<times> nat) rfcontext" where
  "example_full = push_mutate example_ext (replicate 100 (''stroke'', (\<lambda>(g, v). (g + 1, v)))) example_ctx"

definition example_ops :: "(nat, int \<times> nat) op list" where
  "example_ops = [Push ''a'' False, Mutate (\<lambda>(g, v). (g + 1, v)), Push ''b'' False, UndoPop,
                  RedoPop, UndoCancel, SetTool 3, Push ''b'' True]"

subsection \<open>Queries over the source meshes\<close>

text \<open>
  A ray is an origin and a direction, a plane a point and a normal. The 4-tuple
  \<open>(hp, hn, hi, hd)\<close> of a raycast holds a point, a normal, a face index and a distance,
  each possibly \<open>None\<close>. Distances are Python floats, modelled as reals (no NaN).
\<close>

type_synonym Ray = "Point \<times> Point"
type_synonym Plane = "Point \<times> Normal"
type_synonym hit = "Point option \<times> Normal option \<times> nat option \<times> real option"

text \<open>
  An \<open>RFSource\<close> (rfmode/rfmesh.py, outside this file) is given by the answers of the
  methods that \<open>RFContext\<close> calls; \<open>'h\<close> is an element of \<open>raycast_all\<close>, \<open>'c\<close> an element
  of a crawl.
\<close>

record ('h, 'c) rfsource =
  src_raycast :: "Ray \<Rightarrow> hit"
  src_raycast_all :: "Ray \<Rightarrow> 'h list"
  src_plane_intersection_crawl :: "Ray \<Rightarrow> Plane \<Rightarrow> 'c list"
  src_plane_intersection_walk_crawl :: "Ray \<Rightarrow> Plane \<Rightarrow> 'c list"
  src_plane_intersections_crawl :: "Plane \<Rightarrow> 'c list"

datatype py_error = TypeError | AttributeError

definition no_hit :: hit where
  "no_hit = (None, None, None, None)"

text \<open>
  The loop of \<open>raycast_sources_Ray\<close>, with the best tuple so far. The test is
  \<open>bp is None or (hp is not None and hd < bd)\<close>; comparing \<open>None\<close> with \<open><\<close> raises
  \<open>TypeError\<close>.
\<close>

fun raycast_loop :: "('h, 'c) rfsource list \<Rightarrow> Ray \<Rightarrow> hit \<Rightarrow> py_error + hit" where
  "raycast_loop [] ray best = Inr best"
| "raycast_loop (s # ss) ray (bp, bn, bi, bdist) =
     (case src_raycast s ray of (hp, hn, hi, hdist) \<Rightarrow>
        if bp = None then raycast_loop ss ray (hp, hn, hi, hdist)
        else if hp = None then raycast_loop ss ray (bp, bn, bi, bdist)
        else (case (hdist, bdist) of
                (Some x, Some y) \<Rightarrow>
                  if x < y then raycast_loop ss ray (hp, hn, hi, hdist)
                  else raycast_loop ss ray (bp, bn, bi, bdist)
              | _ \<Rightarrow> Inl TypeError))"

definition raycast_sources_Ray :: "('h, 'c) rfsource list \<Rightarrow> Ray \<Rightarrow> py_error + hit" where
  "raycast_sources_Ray rfsources ray = raycast_loop rfsources ray (None, None, None, None)"

definition raycast_sources_Ray_all :: "('h, 'c) rfsource list \<Rightarrow> Ray \<Rightarrow> 'h list" where
  "raycast_sources_Ray_all rfsources ray = concat (map (\<lambda>rfsource. src_raycast_all rfsource ray) rfsources)"

text \<open>
  \<open>Point2D_to_Ray\<close> belongs to \<open>RFContext_Spaces\<close> (outside this file) and is a
  parameter.
\<close>

definition raycast_sources_Point2D ::
  "(Point2D \<Rightarrow> Ray) \<Rightarrow> ('h, 'c) rfsource list \<Rightarrow> Point2D option \<Rightarrow> py_error + hit" where
  "raycast_sources_Point2D Point2D_to_Ray rfsources xy =
     (case xy of None \<Rightarrow> Inr (None, None, None, None)
      | Some p \<Rightarrow> raycast_sources_Ray rfsources (Point2D_to_Ray p))"

text \<open>\<open>raycast_sources_Point2D_all\<close> returns a 4-tuple on one path and a list on the other.\<close>

datatype 'h query_result = ResTuple hit | ResList "'h list"

definition raycast_sources_Point2D_all ::
  "(Point2D \<Rightarrow> Ray) \<Rightarrow> ('h, 'c) rfsource list \<Rightarrow> Point2D option \<Rightarrow> 'h query_result" where
  "raycast_sources_Point2D_all Point2D_to_Ray rfsources xy =
     (case xy of None \<Rightarrow> ResTuple (None, None, None, None)
      | Some p \<Rightarrow> ResList (raycast_sources_Ray_all rfsources (Point2D_to_Ray p)))"

text \<open>
  The loop of \<open>plane_intersection_crawl\<close> keeps the owning source \<open>bo\<close> beside the best
  tuple.
\<close>

fun crawl_loop ::
  "('h, 'c) rfsource list \<Rightarrow> Ray \<Rightarrow> hit \<times> ('h, 'c) rfsource option \<Rightarrow>
   py_error + hit \<times> ('h, 'c) rfsource option" where
  "crawl_loop [] ray best = Inr best"
| "crawl_loop (s # ss) ray ((bp, bn, bi, bdist), bo) =
     (case src_raycast s ray of (hp, hn, hi, hdist) \<Rightarrow>
        if bp = None then crawl_loop ss ray ((hp, hn, hi, hdist), Some s)
        else if hp = None then crawl_loop ss ray ((bp, bn, bi, bdist), bo)
        else (case (hdist, bdist) of
                (Some x, Some y) \<Rightarrow>
                  if x < y then crawl_loop ss ray ((hp, hn, hi, hdist), Some s)
                  else crawl_loop ss ray ((bp, bn, bi, bdist), bo)
              | _ \<Rightarrow> Inl TypeError))"

text \<open>
  \<open>plane_intersection_crawl\<close>. After the loop the test is \<open>if not bp\<close>, the truth value
  of the point object: \<open>None\<close> is falsy, and the truth value of a \<open>Point\<close> (class of
  common/maths.py, outside this file) is the parameter \<open>point_true\<close>. Calling a method
  of \<open>bo = None\<close> would raise \<open>AttributeError\<close>.
\<close>

definition plane_intersection_crawl ::
  "(Point \<Rightarrow> bool) \<Rightarrow> ('h, 'c) rfsource list \<Rightarrow> Ray \<Rightarrow> Plane \<Rightarrow> bool \<Rightarrow> py_error + 'c list" where
  "plane_intersection_crawl point_true rfsources ray plane walk =
     (case crawl_loop rfsources ray ((None, None, None, None), None) of
        Inl e \<Rightarrow> Inl e
      | Inr ((bp, bn, bi, bdist), bo) \<Rightarrow>
          if (case bp of None \<Rightarrow> True | Some p \<Rightarrow> \<not> point_true p) then Inr []
          else (case bo of
                  None \<Rightarrow> Inl AttributeError
                | Some b \<Rightarrow>
                    if walk then Inr (src_plane_intersection_walk_crawl b ray plane)
                    else Inr (src_plane_intersection_crawl b ray plane)))"

definition plane_intersections_crawl :: "('h, 'c) rfsource list \<Rightarrow> Plane \<Rightarrow> 'c list" where
  "plane_intersections_crawl rfsources plane =
     concat (map (\<lambda>rfsource. src_plane_intersections_crawl rfsource plane) rfsources)"

text \<open>
  The contract of \<open>RFSource.raycast\<close> that the reduction relies on: a miss is the tuple of
  four \<open>None\<close>, and a hit carries a distance.
\<close>

definition is_hit :: "hit \<Rightarrow> bool" where
  "is_hit h \<longleftrightarrow> fst h \<noteq> None"

definition hit_ok :: "hit \<Rightarrow> bool" where
  "hit_ok h \<longleftrightarrow> (if fst h = None then h = no_hit else snd (snd (snd h)) \<noteq> None)"

definition hit_dist :: "hit \<Rightarrow> real" where
  "hit_dist h = (case snd (snd (snd h)) of None \<Rightarrow> 0 | Some d \<Rightarrow> d)"

text \<open>Sources that answer every ray and plane alike, for concrete sessions.\<close>

definition const_source :: "hit \<Rightarrow> 'c list \<Rightarrow> (hit, 'c) rfsource" where
  "const_source h cs =
     \<lparr>src_raycast = (\<lambda>ray. h), src_raycast_all = (\<lambda>ray. if fst h = None then [] else [h]),
      src_plane_intersection_crawl = (\<lambda>ray plane. cs),
      src_plane_intersection_walk_crawl = (\<lambda>ray plane. rev cs),
      src_plane_intersections_crawl = (\<lambda>plane. cs)\<rparr>"

definition hit_at :: "real \<Rightarrow> nat \<Rightarrow> hit" where
  "hit_at d i = (Some (0, 0, d), Some (0, 0, - 1), Some i, Some d)"

definition example_ray :: Ray where
  "example_ray = ((0, 0, 0), (0, 0, 1))"

definition example_plane :: Plane where
  "example_plane = ((0, 0, 0), (1, 0, 0))"

definition example_sources :: "(hit, string) rfsource list" where
  "example_sources =
     [const_source no_hit [], const_source (hit_at 5 1) [''far''], const_source (hit_at 2 2) [''near'', ''nearer'']]"

text \<open>
  \<open>owns_nearest ray pre s post\<close>: in the list \<open>pre @ s # post\<close> the source \<open>s\<close> reports a
  hit, every hit before it is strictly farther and no hit after it is nearer.
\<close>

definition owns_nearest ::
  "Ray \<Rightarrow> ('h, 'c) rfsource list \<Rightarrow> ('h, 'c) rfsource \<Rightarrow> ('h, 'c) rfsource list \<Rightarrow> bool" where
  "owns_nearest ray pre s post \<longleftrightarrow>
     is_hit (src_raycast s ray) \<and>
     list_all (\<lambda>x. is_hit (src_raycast x ray) \<longrightarrow>
        hit_dist (src_raycast s ray) < hit_dist (src_raycast x ray)) pre \<and>
     list_all (\<lambda>x. is_hit (src_raycast x ray) \<longrightarrow>
        hit_dist (src_raycast s ray) \<le> hit_dist (src_raycast x ray)) post"

definition tie_sources :: "(hit, string) rfsource list" where
  "tie_sources =
     [const_source (hit_at 2 1) [''first''], const_source no_hit [], const_source (hit_at 2 2) [''second'']]"

definition miss_sources :: "(hit, string) rfsource list" where
  "miss_sources = [const_source no_hit [], const_source no_hit []]"

subsection \<open>The modal loop\<close>

text \<open>
  What the collaborators answer while one event is processed: the action vocabulary
  after \<open>_process_event\<close> (\<open>self.actions\<close>), the event type, the auto-save preferences of
  the host, whether the backup file exists, the result of \<open>window_manager.modal\<close> and
  the answers of the pointer widget. Effects of these collaborators on their own state
  are outside the model.

  \<open>time_to_save\<close>, \<open>time_delta\<close> and the auto-save interval are Python floats. The value
  of a float is a real number and comparing floats is exact, but their subtraction and
  multiplication round: the two operations are the parameters \<open>float_sub\<close> and
  \<open>float_mul\<close>, about which nothing is assumed.
\<close>

record env =
  using_action :: "string \<Rightarrow> bool"
  pressed :: "string \<Rightarrow> bool"
  navigating :: bool
  timer :: bool
  trackpad :: bool
  valid_mouse :: bool
  mouse :: "Point2D option"
  time_delta :: real
  event_type :: string
  use_auto_save_temporary_files :: bool
  auto_save_time :: real
  backup_exists :: bool
  wm_ret :: "string set option"
  widget_modal :: bool
  widget_cursor :: string
  float_sub :: "real \<Rightarrow> real \<Rightarrow> real"
  float_mul :: "real \<Rightarrow> real \<Rightarrow> real"

text \<open>A call that returns a value or raises; \<open>modal\<close> tells \<open>AssertionError\<close> from the rest.\<close>

datatype 'a outcome = Returned 'a | RaisedAssertion | RaisedException

type_synonym ('t, 'm) handler =
  "env \<Rightarrow> ('t, 'm) rfcontext \<Rightarrow> string option outcome \<times> ('t, 'm) rfcontext"

definition add_effects :: "'t effect list \<Rightarrow> ('t, 'm) rfcontext \<Rightarrow> ('t, 'm) rfcontext" where
  "add_effects es ctx = ctx\<lparr>effects := effects ctx @ es\<rparr>"

text \<open>The loop over \<open>RFTool.action_tool\<close> in \<open>modal_main\<close>: the first binding whose action fired.\<close>

fun tool_shortcut :: "(string \<Rightarrow> bool) \<Rightarrow> (string \<times> 't) list \<Rightarrow> 't option" where
  "tool_shortcut p [] = None"
| "tool_shortcut p ((a, t) # rest) = (if p a then Some t else tool_shortcut p rest)"

text \<open>
  \<open>modal_main\<close>. \<open>tool_modal\<close> is the \<open>modal\<close> method of the tools (outside this file): it
  may change the context and may raise. \<open>select_toggle\<close> mutates the target mesh.
\<close>

definition modal_main ::
  "('t, 'm) ext \<Rightarrow> ('t \<Rightarrow> ('t, 'm) rfcontext \<Rightarrow> unit outcome \<times> ('t, 'm) rfcontext) \<Rightarrow>
   ('t, 'm) handler" where
  "modal_main X tool_modal ev ctx =
     (if pressed ev ''undo'' then (Returned None, snd (undo_pop X ctx))
      else if pressed ev ''redo'' then (Returned None, snd (redo_pop X ctx))
      else if pressed ev ''F2'' then (Returned None, add_effects [ProfilerPrintout] ctx)
      else if pressed ev ''F3'' then (Returned None, add_effects [ProfilerClear] ctx)
      else
        case tool_shortcut (pressed ev) (action_tool X) of
          Some t \<Rightarrow> (Returned None, set_tool t False ctx)
        | None \<Rightarrow>
            if pressed ev ''select all''
            then (Returned None,
                  mutate (select_toggle X) (snd (undo_push X ''select all'' False ctx)))
            else
              let c1 = (if valid_mouse ev
                        then add_effects [WidgetUpdate, SetCursor (widget_cursor ev)] ctx
                        else add_effects [WidgetClear, SetCursor ''DEFAULT''] ctx)
              in if widget_modal ev \<and> valid_mouse ev
                 then (case tool_modal (tool c1) c1 of
                         (Returned u, c2) \<Rightarrow> (Returned None, c2)
                       | (RaisedAssertion, c2) \<Rightarrow> (RaisedAssertion, c2)
                       | (RaisedException, c2) \<Rightarrow> (RaisedException, c2))
                 else (Returned None, c1))"

text \<open>\<open>self.FSM = {'main': self.modal_main}\<close>.\<close>

definition FSM ::
  "('t, 'm) ext \<Rightarrow> ('t \<Rightarrow> ('t, 'm) rfcontext \<Rightarrow> unit outcome \<times> ('t, 'm) rfcontext) \<Rightarrow>
   string \<Rightarrow> ('t, 'm) handler option" where
  "FSM X tool_modal = [''main'' \<mapsto> modal_main X tool_modal]"

text \<open>
  The auto-save block of \<open>modal\<close>. \<open>auto_save_time\<close> is in minutes; the product
  \<open>auto_save_time * 60\<close> and the difference \<open>time_to_save - time_delta\<close> are computed by
  Python.
\<close>

definition autosave_step :: "env \<Rightarrow> ('t, 'm) rfcontext \<Rightarrow> ('t, 'm) rfcontext" where
  "autosave_step ev ctx =
     (if use_auto_save_temporary_files ev \<and> event_type ev = ''TIMER'' then
        let t = (case time_to_save ctx of
                   None \<Rightarrow> float_mul ev (auto_save_time ev) 60
                 | Some t0 \<Rightarrow> float_sub ev t0 (time_delta ev))
        in if t \<le> 0
           then add_effects ((if backup_exists ev then [RemoveBackup] else []) @ [SaveBackup])
                  (ctx\<lparr>time_to_save := Some (float_mul ev (auto_save_time ev) 60)\<rparr>)
           else ctx\<lparr>time_to_save := Some t\<rparr>
      else ctx)"

text \<open>
  The \<open>try\<close> block of \<open>modal\<close>: \<open>nmode = self.FSM[self.mode]()\<close>, \<open>if nmode: self.mode = nmode\<close>.
  A mode without a handler raises \<open>KeyError\<close>, caught by \<open>except Exception\<close>.
\<close>

definition dispatch ::
  "(string \<Rightarrow> ('t, 'm) handler option) \<Rightarrow> env \<Rightarrow> ('t, 'm) rfcontext \<Rightarrow> ('t, 'm) rfcontext" where
  "dispatch fsm ev ctx =
     (case fsm (mode ctx) of
        None \<Rightarrow> add_effects [AlertUser ''exception''] ctx
      | Some h \<Rightarrow>
          (case h ev ctx of
             (Returned nmode, c) \<Rightarrow>
               (case nmode of
                  None \<Rightarrow> c
                | Some n \<Rightarrow> if n \<noteq> [] then c\<lparr>mode := n\<rparr> else c)
           | (RaisedAssertion, c) \<Rightarrow> add_effects [AlertUser ''assert''] c
           | (RaisedException, c) \<Rightarrow> add_effects [AlertUser ''exception''] c))"

text \<open>\<open>ret and 'hover' in ret\<close> for the result of \<open>window_manager.modal\<close>.\<close>

definition hover :: "string set option \<Rightarrow> bool" where
  "hover ret = (case ret of None \<Rightarrow> False | Some r \<Rightarrow> r \<noteq> {} \<and> ''hover'' \<in> r)"

text \<open>
  \<open>modal\<close>: the set of actions for \<open>RFMode\<close> and the new context, or the exception that
  escapes (only the raycast at the top can raise in the model).
\<close>

definition modal ::
  "(Point2D \<Rightarrow> Ray) \<Rightarrow> ('h, 'c) rfsource list \<Rightarrow> (string \<Rightarrow> ('t, 'm) handler option) \<Rightarrow>
   env \<Rightarrow> ('t, 'm) rfcontext \<Rightarrow> py_error + string set \<times> ('t, 'm) rfcontext" where
  "modal Point2D_to_Ray rfsources fsm ev ctx =
     (case raycast_sources_Point2D Point2D_to_Ray rfsources (mouse ev) of
        Inl e \<Rightarrow> Inl e
      | Inr (hp, hn, hi, hdist) \<Rightarrow>
          let c0 = ctx\<lparr>hit_pos := hp, hit_norm := hn\<rparr> in
          if using_action ev ''window actions'' then Inr ({''pass''}, c0)
          else if using_action ev ''autosave'' then Inr ({''pass''}, c0)
          else if pressed ev ''tool help'' then Inr ({}, add_effects [ToggleToolHelp] c0)
          else
            let c1 = autosave_step ev c0 in
            if hover (wm_ret ev) then
              let c2 = add_effects [WidgetClear] c1
              in if exit c2 then Inr ({''confirm''}, c2) else Inr ({}, c2)
            else if navigating ev \<or> (timer ev \<and> nav c1) then
              Inr ({''pass''},
                   add_effects [WidgetClear]
                     ((if \<not> trackpad ev then add_effects [SetCursor ''HAND''] else (\<lambda>c. c))
                        ((add_effects [Unuse ''navigate''] c1)\<lparr>nav := True\<rparr>)))
            else
              let c2 = (if nav c1 then add_effects [WidgetUpdate] (c1\<lparr>nav := False\<rparr>) else c1);
                  c3 = dispatch fsm ev c2
              in if pressed ev ''done'' \<or> exit c3 then Inr ({''confirm''}, c3)
                 else if pressed ev ''edit mode'' then Inr ({''confirm'', ''edit mode''}, c3)
                 else Inr ({}, c3))"

text \<open>Events of the concrete session: navigation with a tool shortcut, and with the help key.\<close>

definition example_env :: env where
  "example_env =
     \<lparr>using_action = (\<lambda>a. False), pressed = (\<lambda>a. a = ''T''), navigating = True, timer = False,
      trackpad = False, valid_mouse = True, mouse = Some (3, 4), time_delta = 1 / 60,
      event_type = ''MOUSEMOVE'', use_auto_save_temporary_files = True, auto_save_time = 2,
      backup_exists = False, wm_ret = None, widget_modal = True, widget_cursor = ''CROSSHAIR'',
      float_sub = (\<lambda>x y. x - y), float_mul = (\<lambda>x y. x * y)\<rparr>"

definition example_tool_modal ::
  "nat \<Rightarrow> (nat, int \<times> nat) rfcontext \<Rightarrow> unit outcome \<times> (nat, int \<times> nat) rfcontext" where
  "example_tool_modal t ctx = (Returned (), ctx)"

definition example_help_env :: env where
  "example_help_env = example_env\<lparr>pressed := (\<lambda>a. a = ''tool help'' \<or> a = ''T'')\<rparr>"

definition example_still_env :: env where
  "example_still_env = example_env\<lparr>navigating := False\<rparr>"

definition example_hover_env :: env where
  "example_hover_env = example_env\<lparr>wm_ret := Some {''hover''}\<rparr>"

section \<open>Properties\<close>

subsection \<open>The history\<close>

lemma limit_stack_drop: "limit_stack d xs = drop (length xs - d) xs"
proof (induction d xs rule: limit_stack.induct)
  case (1 d xs)
  show ?case
  proof (cases "length xs > d")
    case True
    then have "xs \<noteq> []" by auto
    then obtain y ys where xs: "xs = y # ys" by (cases xs) auto
    from True xs have "Suc (length ys) - d = Suc (length ys - d)" by simp
    with 1 True xs show ?thesis by (simp add: limit_stack.simps[of d "y # ys"])
  next
    case False
    then show ?thesis by (simp add: limit_stack.simps[of d xs])
  qed
qed

lemma set_tool_fields [simp]:
  "undo (set_tool t f ctx) = undo ctx"
  "redo (set_tool t f ctx) = redo ctx"
  "rftarget (set_tool t f ctx) = rftarget ctx"
  "heap (set_tool t f ctx) = heap ctx"
  "mode (set_tool t f ctx) = mode ctx"
  "nav (set_tool t f ctx) = nav ctx"
  "exit (set_tool t f ctx) = exit ctx"
  by (simp_all add: set_tool_def)

lemma set_tool_tool [simp]: "tool (set_tool t f ctx) = t"
  by (simp add: set_tool_def)

lemma instrument_write_fields [simp]:
  "undo (instrument_write X a ctx) = undo ctx"
  "redo (instrument_write X a ctx) = redo ctx"
  "rftarget (instrument_write X a ctx) = rftarget ctx"
  "heap (instrument_write X a ctx) = heap ctx"
  "tool (instrument_write X a ctx) = tool ctx"
  "mode (instrument_write X a ctx) = mode ctx"
  "nav (instrument_write X a ctx) = nav ctx"
  "exit (instrument_write X a ctx) = exit ctx"
  by (simp_all add: instrument_write_def)

lemma restore_state_fields [simp]:
  "undo (restore_state X s ctx) = undo ctx"
  "redo (restore_state X s ctx) = redo ctx"
  "rftarget (restore_state X s ctx) = s_rftarget s"
  "tool (restore_state X s ctx) = s_tool s"
  "mode (restore_state X s ctx) = mode ctx"
  "nav (restore_state X s ctx) = nav ctx"
  "exit (restore_state X s ctx) = exit ctx"
  by (simp_all add: restore_state_def Let_def)

lemma update_twice: "xs[i := g (xs[i := f (xs ! i)] ! i)] = xs[i := g (f (xs ! i))]"
  by (cases "i < length xs") (simp_all add: list_update_beyond)

lemma restore_state_heap [simp]:
  "heap (restore_state X s ctx) =
     (heap ctx)[s_rftarget s := dirty X (rewrap X (heap ctx ! s_rftarget s))]"
  by (simp add: restore_state_def Let_def update_twice)

lemma undo_push_skip: "skipped a r ctx \<Longrightarrow> undo_push X a r ctx = (PyNone, ctx)"
  by (simp add: undo_push_def skipped_def)

lemma undo_push_fields:
  assumes "\<not> skipped a r ctx"
  shows "undo (snd (undo_push X a r ctx)) =
           limit_stack undo_depth
             (undo ctx @ [\<lparr>action = a, s_tool = tool ctx, s_rftarget = length (heap ctx)\<rparr>])"
    and "redo (snd (undo_push X a r ctx)) = []"
    and "rftarget (snd (undo_push X a r ctx)) = rftarget ctx"
    and "tool (snd (undo_push X a r ctx)) = tool ctx"
    and "heap (snd (undo_push X a r ctx)) = heap ctx @ [heap ctx ! rftarget ctx]"
  using assms by (auto simp add: undo_push_def skipped_def create_state_def Let_def)

lemma undo_pop_fields:
  assumes "undo ctx \<noteq> []"
  shows "undo (snd (undo_pop X ctx)) = butlast (undo ctx)"
    and "redo (snd (undo_pop X ctx)) =
           redo ctx @ [\<lparr>action = ''undo'', s_tool = tool ctx, s_rftarget = length (heap ctx)\<rparr>]"
    and "rftarget (snd (undo_pop X ctx)) = s_rftarget (last (undo ctx))"
    and "tool (snd (undo_pop X ctx)) = s_tool (last (undo ctx))"
    and "heap (snd (undo_pop X ctx)) =
           (heap ctx @ [heap ctx ! rftarget ctx])
             [s_rftarget (last (undo ctx)) :=
                dirty X (rewrap X ((heap ctx @ [heap ctx ! rftarget ctx]) ! s_rftarget (last (undo ctx))))]"
  using assms by (simp_all add: undo_pop_def create_state_def Let_def)

lemma redo_pop_fields:
  assumes "redo ctx \<noteq> []"
  shows "redo (snd (redo_pop X ctx)) = butlast (redo ctx)"
    and "undo (snd (redo_pop X ctx)) =
           undo ctx @ [\<lparr>action = ''redo'', s_tool = tool ctx, s_rftarget = length (heap ctx)\<rparr>]"
    and "rftarget (snd (redo_pop X ctx)) = s_rftarget (last (redo ctx))"
    and "tool (snd (redo_pop X ctx)) = s_tool (last (redo ctx))"
    and "heap (snd (redo_pop X ctx)) =
           (heap ctx @ [heap ctx ! rftarget ctx])
             [s_rftarget (last (redo ctx)) :=
                dirty X (rewrap X ((heap ctx @ [heap ctx ! rftarget ctx]) ! s_rftarget (last (redo ctx))))]"
  using assms by (simp_all add: redo_pop_def create_state_def Let_def)

lemma undo_cancel_fields:
  assumes "undo ctx \<noteq> []"
  shows "undo (snd (undo_cancel X ctx)) = butlast (undo ctx)"
    and "redo (snd (undo_cancel X ctx)) = redo ctx"
    and "rftarget (snd (undo_cancel X ctx)) = s_rftarget (last (undo ctx))"
    and "tool (snd (undo_cancel X ctx)) = s_tool (last (undo ctx))"
    and "heap (snd (undo_cancel X ctx)) =
           (heap ctx)[s_rftarget (last (undo ctx)) :=
                dirty X (rewrap X (heap ctx ! s_rftarget (last (undo ctx))))]"
  using assms by (simp_all add: undo_cancel_def Let_def)

lemma wf_mutate: "well_formed ctx \<Longrightarrow> well_formed (mutate f ctx)"
  by (simp add: well_formed_def mutate_def)

lemma wf_set_tool: "well_formed ctx \<Longrightarrow> well_formed (set_tool t f ctx)"
  by (simp add: well_formed_def)

lemma wf_undo_push: assumes "well_formed ctx" shows "well_formed (snd (undo_push X a r ctx))"
proof (cases "skipped a r ctx")
  case True then show ?thesis using assms by (simp add: undo_push_skip)
next
  case False
  let ?s = "\<lparr>action = a, s_tool = tool ctx, s_rftarget = length (heap ctx)\<rparr>"
  let ?k = "length (undo ctx @ [?s]) - undo_depth"
  have sub: "set (drop ?k (undo ctx @ [?s])) \<subseteq> set (undo ctx) \<union> {?s}"
    using set_drop_subset[of ?k "undo ctx @ [?s]"] by auto
  have d: "distinct (map s_rftarget (undo ctx @ [?s]))"
    using assms by (auto simp: well_formed_def list_all_iff)
  have d': "distinct (map s_rftarget (drop ?k (undo ctx @ [?s])))"
    using d by (simp only: drop_map[symmetric] distinct_drop)
  show ?thesis
    using assms sub d' unfolding well_formed_def undo_push_fields[OF False] limit_stack_drop
    by (auto simp: list_all_iff less_Suc_eq)
qed

lemma wf_undo_pop: assumes "well_formed ctx" shows "well_formed (snd (undo_pop X ctx))"
proof (cases "undo ctx = []")
  case True then show ?thesis using assms by (simp add: undo_pop_def)
next
  case False
  then obtain us top where u: "undo ctx = us @ [top]" by (cases "undo ctx" rule: rev_cases) auto
  show ?thesis
    using assms unfolding well_formed_def undo_pop_fields[OF False]
    by (auto simp: u list_all_iff less_Suc_eq)
qed

lemma wf_redo_pop: assumes "well_formed ctx" shows "well_formed (snd (redo_pop X ctx))"
proof (cases "redo ctx = []")
  case True then show ?thesis using assms by (simp add: redo_pop_def)
next
  case False
  then obtain rs top where u: "redo ctx = rs @ [top]" by (cases "redo ctx" rule: rev_cases) auto
  show ?thesis
    using assms unfolding well_formed_def redo_pop_fields[OF False]
    by (auto simp: u list_all_iff less_Suc_eq)
qed

lemma wf_undo_cancel: assumes "well_formed ctx" shows "well_formed (snd (undo_cancel X ctx))"
proof (cases "undo ctx = []")
  case True then show ?thesis using assms by (simp add: undo_cancel_def)
next
  case False
  then obtain us top where u: "undo ctx = us @ [top]" by (cases "undo ctx" rule: rev_cases) auto
  show ?thesis
    using assms unfolding well_formed_def undo_cancel_fields[OF False]
    by (auto simp: u list_all_iff)
qed

lemma wf_apply_op: "well_formed ctx \<Longrightarrow> well_formed (apply_op X x ctx)"
  by (cases x) (simp_all add: wf_undo_push wf_undo_pop wf_redo_pop wf_undo_cancel wf_mutate wf_set_tool)

lemma wf_run: "well_formed ctx \<Longrightarrow> well_formed (run X xs ctx)"
  by (induction xs arbitrary: ctx) (simp_all add: wf_apply_op)

lemma wf_init_base: "well_formed (init_base t m)"
  by (simp add: well_formed_def init_base_def)

lemma wf_init_context: "well_formed (init_context X t m)"
  by (simp add: init_context_def wf_undo_cancel wf_undo_push wf_init_base)

lemma length_limit_stack: "length (limit_stack d xs) \<le> d"
  by (simp add: limit_stack_drop)

lemma bounded_undo_push: assumes "bounded ctx" shows "bounded (snd (undo_push X a r ctx))"
proof (cases "skipped a r ctx")
  case True then show ?thesis using assms by (simp add: undo_push_skip)
next
  case False
  then show ?thesis by (simp add: bounded_def undo_push_fields length_limit_stack)
qed

lemma bounded_undo_pop: assumes "bounded ctx" shows "bounded (snd (undo_pop X ctx))"
proof (cases "undo ctx = []")
  case True then show ?thesis using assms by (simp add: undo_pop_def)
next
  case False
  then obtain us top where u: "undo ctx = us @ [top]" by (cases "undo ctx" rule: rev_cases) auto
  with assms show ?thesis unfolding bounded_def undo_pop_fields[OF False] by simp
qed

lemma bounded_redo_pop: assumes "bounded ctx" shows "bounded (snd (redo_pop X ctx))"
proof (cases "redo ctx = []")
  case True then show ?thesis using assms by (simp add: redo_pop_def)
next
  case False
  then obtain rs top where u: "redo ctx = rs @ [top]" by (cases "redo ctx" rule: rev_cases) auto
  with assms show ?thesis unfolding bounded_def redo_pop_fields[OF False] by simp
qed

lemma bounded_undo_cancel: assumes "bounded ctx" shows "bounded (snd (undo_cancel X ctx))"
proof (cases "undo ctx = []")
  case True then show ?thesis using assms by (simp add: undo_cancel_def)
next
  case False
  with assms show ?thesis unfolding bounded_def undo_cancel_fields[OF False] by simp
qed

lemma bounded_apply_op: "bounded ctx \<Longrightarrow> bounded (apply_op X x ctx)"
proof (cases x)
  case (Mutate f)
  assume "bounded ctx"
  then show ?thesis using Mutate by (simp add: bounded_def mutate_def)
next
  case (SetTool t)
  assume "bounded ctx"
  then show ?thesis using SetTool by (simp add: bounded_def)
qed (simp_all add: bounded_undo_push bounded_undo_pop bounded_redo_pop bounded_undo_cancel)

lemma bounded_run: "bounded ctx \<Longrightarrow> bounded (run X xs ctx)"
  by (induction xs arbitrary: ctx) (simp_all add: bounded_apply_op)

lemma length_stored [simp]: "length (stored ctx ss) = length ss"
  by (simp add: stored_def)

lemma stored_simps [simp]:
  "stored ctx [] = []"
  "stored ctx (s # ss) = heap ctx ! s_rftarget s # stored ctx ss"
  by (simp_all add: stored_def)

lemma stored_append [simp]: "stored ctx (xs @ ys) = stored ctx xs @ stored ctx ys"
  by (simp add: stored_def)

lemma stored_drop: "stored ctx (drop k ss) = drop k (stored ctx ss)"
  by (simp add: stored_def drop_map)

lemma stored_cong:
  "(\<And>s. s \<in> set ss \<Longrightarrow> heap c ! s_rftarget s = heap c' ! s_rftarget s) \<Longrightarrow>
   stored c ss = stored c' ss"
  by (simp add: stored_def)

lemma wf_undo_bound: "well_formed ctx \<Longrightarrow> s \<in> set (undo ctx) \<Longrightarrow> s_rftarget s < length (heap ctx)"
  by (auto simp: well_formed_def list_all_iff)

lemma wf_not_live:
  assumes "well_formed ctx" "s \<in> set (undo ctx @ redo ctx)"
  shows "s_rftarget s \<noteq> rftarget ctx"
proof -
  have "rftarget ctx \<notin> set (map s_rftarget (undo ctx @ redo ctx))"
    using assms(1) by (simp add: well_formed_def)
  moreover have "s_rftarget s \<in> set (map s_rftarget (undo ctx @ redo ctx))"
    using assms(2) by (simp only: set_map) (rule imageI)
  ultimately show ?thesis by metis
qed

lemma wf_undo_not_live: "well_formed ctx \<Longrightarrow> s \<in> set (undo ctx) \<Longrightarrow> s_rftarget s \<noteq> rftarget ctx"
  by (rule wf_not_live) simp_all

lemma wf_redo_bound: "well_formed ctx \<Longrightarrow> s \<in> set (redo ctx) \<Longrightarrow> s_rftarget s < length (heap ctx)"
  by (auto simp: well_formed_def list_all_iff)

lemma wf_redo_not_live: "well_formed ctx \<Longrightarrow> s \<in> set (redo ctx) \<Longrightarrow> s_rftarget s \<noteq> rftarget ctx"
  by (rule wf_not_live) simp_all

lemma wf_live_bound: "well_formed ctx \<Longrightarrow> rftarget ctx < length (heap ctx)"
  by (simp add: well_formed_def)

lemma stored_undo_push:
  assumes "well_formed ctx" "\<not> skipped a r ctx"
  shows "stored (snd (undo_push X a r ctx)) (undo (snd (undo_push X a r ctx))) =
           limit_stack undo_depth (stored ctx (undo ctx) @ [live_mesh ctx])"
proof -
  let ?c = "snd (undo_push X a r ctx)"
  let ?s = "\<lparr>action = a, s_tool = tool ctx, s_rftarget = length (heap ctx)\<rparr>"
  have old: "stored ?c (undo ctx) = stored ctx (undo ctx)"
    by (rule stored_cong) (simp add: undo_push_fields[OF assms(2)] nth_append wf_undo_bound[OF assms(1)])
  have new: "heap ?c ! length (heap ctx) = live_mesh ctx"
    by (simp add: undo_push_fields[OF assms(2)] live_mesh_def)
  show ?thesis
    by (simp add: undo_push_fields(1)[OF assms(2)] limit_stack_drop stored_drop old new)
qed

lemma stored_mutate_undo:
  "well_formed ctx \<Longrightarrow> stored (mutate f ctx) (undo ctx) = stored ctx (undo ctx)"
  by (rule stored_cong) (simp add: mutate_def wf_undo_not_live[symmetric])

lemma stored_mutate_redo:
  "well_formed ctx \<Longrightarrow> stored (mutate f ctx) (redo ctx) = stored ctx (redo ctx)"
  by (rule stored_cong) (simp add: mutate_def wf_redo_not_live[symmetric])

lemma mutate_fields [simp]:
  "undo (mutate f ctx) = undo ctx"
  "redo (mutate f ctx) = redo ctx"
  "tool (mutate f ctx) = tool ctx"
  "rftarget (mutate f ctx) = rftarget ctx"
  by (simp_all add: mutate_def)

lemma stored_undo_pop:
  assumes "well_formed ctx" "undo ctx \<noteq> []"
  shows "stored (snd (undo_pop X ctx)) (undo (snd (undo_pop X ctx))) = butlast (stored ctx (undo ctx))"
proof -
  from assms(2) obtain us top where u: "undo ctx = us @ [top]"
    by (cases "undo ctx" rule: rev_cases) auto
  have "distinct (map s_rftarget us @ [s_rftarget top])"
    using assms(1) by (simp add: well_formed_def u)
  then have "s_rftarget top \<notin> s_rftarget ` set us" by simp
  then have d: "\<And>s. s \<in> set us \<Longrightarrow> s_rftarget s \<noteq> s_rftarget top"
    by (metis imageI)
  have b: "\<And>s. s \<in> set us \<Longrightarrow> s_rftarget s < length (heap ctx)"
    using wf_undo_bound[OF assms(1)] by (simp add: u)
  have "stored (snd (undo_pop X ctx)) us = stored ctx us"
    by (rule stored_cong) (simp add: undo_pop_fields[OF assms(2)] u d[symmetric] b nth_append)
  then show ?thesis by (simp add: undo_pop_fields(1)[OF assms(2)] u)
qed

lemma live_undo_pop:
  assumes "well_formed ctx" "undo ctx \<noteq> []"
  shows "live_mesh (snd (undo_pop X ctx)) = dirty X (rewrap X (last (stored ctx (undo ctx))))"
proof -
  from assms(2) obtain us top where u: "undo ctx = us @ [top]"
    by (cases "undo ctx" rule: rev_cases) auto
  have b: "s_rftarget top < length (heap ctx)"
    using wf_undo_bound[OF assms(1), of top] by (simp add: u)
  show ?thesis
    by (simp add: live_mesh_def undo_pop_fields[OF assms(2)] u b less_SucI[OF b] nth_append stored_def)
qed

lemma push_mutate_append:
  "push_mutate X (xs @ ys) ctx = push_mutate X ys (push_mutate X xs ctx)"
  by (induction xs arbitrary: ctx) auto

lemma wf_push_mutate: "well_formed ctx \<Longrightarrow> well_formed (push_mutate X steps ctx)"
  by (induction steps arbitrary: ctx) (auto simp: wf_mutate wf_undo_push)

lemma not_skipped_False [simp]: "\<not> skipped a False ctx"
  by (simp add: skipped_def)

lemma stored_push_mutate:
  assumes "well_formed ctx"
  shows "length steps \<le> undo_depth \<Longrightarrow>
         \<exists>pre. stored (push_mutate X steps ctx) (undo (push_mutate X steps ctx)) =
           pre @ map (\<lambda>i. live_mesh (push_mutate X (take i steps) ctx)) [0..<length steps]"
proof (induction steps rule: rev_induct)
  case Nil
  then show ?case by simp
next
  case (snoc x ss)
  obtain a f where x: "x = (a, f)" by (cases x)
  let ?c1 = "push_mutate X ss ctx"
  let ?c2 = "snd (undo_push X a False ?c1)"
  let ?vs = "map (\<lambda>i. live_mesh (push_mutate X (take i ss) ctx)) [0..<length ss]"
  have wf1: "well_formed ?c1" by (rule wf_push_mutate[OF assms])
  have wf2: "well_formed ?c2" by (rule wf_undo_push[OF wf1])
  from snoc obtain pre where pre: "stored ?c1 (undo ?c1) = pre @ ?vs" by auto
  have c3: "push_mutate X (ss @ [x]) ctx = mutate f ?c2"
    by (simp add: push_mutate_append x)
  have len: "Suc (length ss) \<le> undo_depth" using snoc.prems by simp
  have "stored (mutate f ?c2) (undo (mutate f ?c2)) = stored ?c2 (undo ?c2)"
    using stored_mutate_undo[OF wf2] by simp
  also have "\<dots> = limit_stack undo_depth (stored ?c1 (undo ?c1) @ [live_mesh ?c1])"
    by (rule stored_undo_push[OF wf1]) simp
  also have "\<dots> = drop (Suc (length pre + length ss) - undo_depth) pre @ ?vs @ [live_mesh ?c1]"
    using len by (simp add: limit_stack_drop pre)
  also have "?vs @ [live_mesh ?c1] =
       map (\<lambda>i. live_mesh (push_mutate X (take i (ss @ [x])) ctx)) [0..<length (ss @ [x])]"
    by simp
  finally show ?case unfolding c3 by blast
qed

lemma pops_stored:
  "well_formed c \<Longrightarrow> M \<le> length (undo c) \<Longrightarrow>
   well_formed (pops X M c) \<and>
   stored (pops X M c) (undo (pops X M c)) = take (length (undo c) - M) (stored c (undo c)) \<and>
   (0 < M \<longrightarrow> live_mesh (pops X M c) =
      dirty X (rewrap X (stored c (undo c) ! (length (undo c) - M))))"
proof (induction M arbitrary: c)
  case 0
  then show ?case by simp
next
  case (Suc M)
  let ?c' = "snd (undo_pop X c)"
  let ?ws = "stored c (undo c)"
  from Suc.prems have ne: "undo c \<noteq> []" by auto
  have wf': "well_formed ?c'" by (rule wf_undo_pop[OF Suc.prems(1)])
  have u': "undo ?c' = butlast (undo c)" by (rule undo_pop_fields(1)[OF ne])
  have st': "stored ?c' (undo ?c') = butlast ?ws" by (rule stored_undo_pop[OF Suc.prems(1) ne])
  have lv': "live_mesh ?c' = dirty X (rewrap X (last ?ws))" by (rule live_undo_pop[OF Suc.prems(1) ne])
  have M: "M \<le> length (undo ?c')" using Suc.prems(2) by (simp add: u')
  note IH = Suc.IH[OF wf' M]
  have l: "length (undo ?c') - M = length (undo c) - Suc M" by (simp add: u')
  have lt: "length (undo c) - Suc M < length ?ws" using ne by simp
  have t: "take (length (undo c) - Suc M) (butlast ?ws) = take (length (undo c) - Suc M) ?ws"
    using lt by (simp add: take_butlast)
  have n: "0 < M \<Longrightarrow> butlast ?ws ! (length (undo c) - Suc M) = ?ws ! (length (undo c) - Suc M)"
    using Suc.prems(2) by (simp add: nth_butlast)
  have wne: "?ws \<noteq> []" using ne by (simp add: stored_def)
  have z: "M = 0 \<Longrightarrow> last ?ws = ?ws ! (length (undo c) - Suc M)"
    using last_conv_nth[OF wne] by simp
  show ?case
  proof (cases "M = 0")
    case True
    then show ?thesis using wf' st' lv' z t by simp
  next
    case False
    then show ?thesis using IH n t by (simp add: st' l)
  qed
qed

lemma last_limit_stack: "0 < d \<Longrightarrow> last (limit_stack d (xs @ [x])) = x"
  by (simp add: limit_stack_drop)

text \<open>
  Claim C1 (snapshot fidelity). In a well-formed context, and for every observation
  \<open>geom\<close> of a mesh that \<open>rewrap\<close> and \<open>dirty\<close> leave alone: after \<open>N \<le> undo_depth\<close>
  pushes with \<open>repeatable=False\<close> (the live mesh mutated after each) and \<open>M \<le> N\<close> calls of
  \<open>undo_pop\<close>, the live mesh shows what it showed just before push number \<open>N - M + 1\<close>.
  A pushed snapshot is another object than the live mesh, so mutating the live mesh after
  a push changes no snapshot of either stack, and the new snapshot still holds the mesh
  as it was at the push. \<open>undo_pop\<close> on an empty undo stack changes nothing.
\<close>

theorem snapshot_fidelity:
  assumes "well_formed ctx" and "\<forall>m. geom (dirty X (rewrap X m)) = geom m"
  shows "(length steps \<le> undo_depth \<and> M \<le> length steps \<longrightarrow>
            geom (live_mesh (pops X M (push_mutate X steps ctx))) =
            geom (live_mesh (push_mutate X (take (length steps - M) steps) ctx))) \<and>
         (let c = snd (undo_push X a False ctx); c' = mutate f c
          in undo c' = undo c \<and> redo c' = redo c \<and>
             stored c' (undo c') = stored c (undo c) \<and>
             stored c' (redo c') = stored c (redo c) \<and>
             last (stored c' (undo c')) = live_mesh ctx \<and>
             s_rftarget (last (undo c')) \<noteq> rftarget c') \<and>
         (undo ctx = [] \<longrightarrow> undo_pop X ctx = (PyNone, ctx))"
proof (intro conjI impI)
  assume a: "length steps \<le> undo_depth \<and> M \<le> length steps"
  let ?c = "push_mutate X steps ctx"
  let ?N = "length steps"
  let ?vs = "map (\<lambda>i. live_mesh (push_mutate X (take i steps) ctx)) [0..<?N]"
  from a stored_push_mutate[OF assms(1), of steps X]
  obtain pre where pre: "stored ?c (undo ?c) = pre @ ?vs" by blast
  have wfc: "well_formed ?c" by (rule wf_push_mutate[OF assms(1)])
  have len: "length (undo ?c) = length pre + ?N"
    using arg_cong[OF pre, of length] by simp
  show "geom (live_mesh (pops X M ?c)) = geom (live_mesh (push_mutate X (take (?N - M) steps) ctx))"
  proof (cases "M = 0")
    case True
    then show ?thesis by simp
  next
    case False
    with a have M: "0 < M" "M \<le> length (undo ?c)" by (simp_all add: len)
    have "live_mesh (pops X M ?c) = dirty X (rewrap X (stored ?c (undo ?c) ! (length (undo ?c) - M)))"
      using pops_stored[OF wfc M(2), of X] M(1) by simp
    also have "stored ?c (undo ?c) ! (length (undo ?c) - M) = ?vs ! (?N - M)"
    proof -
      have "length (undo ?c) - M = length pre + (?N - M)" using a by (simp add: len)
      then show ?thesis by (simp only: pre nth_append_length_plus)
    qed
    also have "\<dots> = live_mesh (push_mutate X (take (?N - M) steps) ctx)"
    proof -
      have "?N - M < ?N" using M(1) a by linarith
      then show ?thesis by simp
    qed
    finally show ?thesis using assms(2) by simp
  qed
next
  let ?c = "snd (undo_push X a False ctx)"
  have wfc: "well_formed ?c" by (rule wf_undo_push[OF assms(1)])
  have ne: "undo ?c \<noteq> []"
    by (simp add: undo_push_fields limit_stack_drop undo_depth_def)
  have l: "last (stored ?c (undo ?c)) = live_mesh ctx"
    by (simp add: stored_undo_push[OF assms(1)] last_limit_stack undo_depth_def)
  have "last (undo ?c) \<in> set (undo ?c)" using ne by simp
  then have nl: "s_rftarget (last (undo ?c)) \<noteq> rftarget ?c"
    by (rule wf_undo_not_live[OF wfc])
  show "let c = ?c; c' = mutate f c
          in undo c' = undo c \<and> redo c' = redo c \<and>
             stored c' (undo c') = stored c (undo c) \<and>
             stored c' (redo c') = stored c (redo c) \<and>
             last (stored c' (undo c')) = live_mesh ctx \<and>
             s_rftarget (last (undo c')) \<noteq> rftarget c'"
    using stored_mutate_undo[OF wfc, of f] stored_mutate_redo[OF wfc, of f] l nl
    by (simp add: Let_def)
next
  assume "undo ctx = []"
  then show "undo_pop X ctx = (PyNone, ctx)" by (simp add: undo_pop_def)
qed

lemma example_ctx_eval:
  "example_ctx = \<lparr>undo = [], redo = [], tool = 1, rftarget = 1, heap = [(10, 0), (10, 1)],
     mode = ''main'', nav = False, exit = False, time_to_save = None, hit_pos = None,
     hit_norm = None,
     effects = [ToolStart 1, ToolUpdateOptions 1, ToolUpdate 1, ToolSelectionMin 1, ToolSelectionMax 1,
                InstrumentWrite ''initial'', ReplaceRfmesh 1,
                ToolStart 1, ToolUpdateOptions 1, ToolUpdate 1, ToolSelectionMin 1, ToolSelectionMax 1,
                InstrumentWrite ''cancel (undo)'']\<rparr>"
  by (simp add: example_ctx_def init_context_def init_base_def undo_push_def undo_cancel_def
      create_state_def restore_state_def set_tool_def instrument_write_def example_ext_def
      limit_stack.simps undo_depth_def Let_def)

theorem snapshot_fidelity_witness:
  "well_formed example_ctx \<and> (\<forall>m. fst (dirty example_ext (rewrap example_ext m)) = fst m) \<and>
   length example_steps \<le> undo_depth \<and>
   fst (live_mesh (pops example_ext 1 (push_mutate example_ext example_steps example_ctx))) = 11 \<and>
   fst (live_mesh (pops example_ext 2 (push_mutate example_ext example_steps example_ctx))) = 10 \<and>
   fst (live_mesh (push_mutate example_ext example_steps example_ctx)) = 22"
proof -
  have w: "well_formed example_ctx" by (simp add: example_ctx_def wf_init_context)
  have g: "\<forall>m. fst (dirty example_ext (rewrap example_ext m)) = fst m"
    by (simp add: example_ext_def split: prod.splits)
  have l: "length example_steps \<le> undo_depth" by (simp add: example_steps_def undo_depth_def)
  have t1: "push_mutate example_ext (take (length example_steps - 1) example_steps) example_ctx
            = mutate (\<lambda>(g, v). (g + 1, v)) (snd (undo_push example_ext ''a'' False example_ctx))"
    by (simp add: example_steps_def)
  have t2: "push_mutate example_ext (take (length example_steps - 2) example_steps) example_ctx
            = example_ctx"
    by (simp add: example_steps_def)
  have v1: "fst (live_mesh (mutate (\<lambda>(g, v). (g + 1, v)) (snd (undo_push example_ext ''a'' False example_ctx)))) = 11"
    by (simp add: live_mesh_def mutate_def undo_push_def create_state_def instrument_write_def
        limit_stack.simps undo_depth_def Let_def example_ctx_eval example_ext_def)
  have v2: "fst (live_mesh example_ctx) = 10"
    by (simp add: live_mesh_def example_ctx_eval)
  have v0: "fst (live_mesh (push_mutate example_ext example_steps example_ctx)) = 22"
    by (simp add: example_steps_def live_mesh_def mutate_def undo_push_def create_state_def
        instrument_write_def limit_stack.simps undo_depth_def Let_def example_ctx_eval example_ext_def)
  from snapshot_fidelity[OF w g, of example_steps 1] l t1 v1
  have r1: "fst (live_mesh (pops example_ext 1 (push_mutate example_ext example_steps example_ctx))) = 11"
    by (simp add: example_steps_def)
  from snapshot_fidelity[OF w g, of example_steps 2] l t2 v2
  have r2: "fst (live_mesh (pops example_ext 2 (push_mutate example_ext example_steps example_ctx))) = 10"
    by (simp add: example_steps_def)
  show ?thesis using w g l r1 r2 v0 by simp
qed

lemmas eval_defs = undo_push_def undo_pop_def redo_pop_def undo_cancel_def create_state_def
  restore_state_def set_tool_def instrument_write_def mutate_def limit_stack.simps undo_depth_def
  Let_def example_ext_def

lemma example_pushed_eval:
  "example_pushed = example_ctx\<lparr>undo := [\<lparr>action = ''move'', s_tool = 1, s_rftarget = 2\<rparr>],
      heap := [(10, 0), (10, 1), (10, 1)],
      effects := effects example_ctx @ [InstrumentWrite ''move'']\<rparr>"
  by (simp add: example_pushed_def example_ctx_eval eval_defs)

lemma example_undone_eval:
  "example_undone = example_ctx\<lparr>undo := [\<lparr>action = ''move'', s_tool = 1, s_rftarget = 2\<rparr>],
      redo := [\<lparr>action = ''undo'', s_tool = 1, s_rftarget = 4\<rparr>],
      rftarget := 3,
      heap := [(10, 0), (22, 1), (10, 1), (11, 2), (22, 1)],
      effects := effects example_ctx @
        [InstrumentWrite ''move'', InstrumentWrite ''move'', ReplaceRfmesh 3,
         ToolStart 1, ToolUpdateOptions 1, ToolUpdate 1, ToolSelectionMin 1, ToolSelectionMax 1,
         InstrumentWrite ''undo'']\<rparr>"
  by (simp add: example_undone_def example_ctx_eval eval_defs)

text \<open>
  Claim C3 fails as stated: with one snapshot on the undo stack, \<open>undo_pop\<close> pops and
  restores it and still returns \<open>None\<close>, which is falsy, not \<open>True\<close>.
\<close>

theorem history_result_counterexample:
  "undo example_pushed \<noteq> [] \<and>
   undo (snd (undo_pop example_ext example_pushed)) = [] \<and>
   rftarget (snd (undo_pop example_ext example_pushed)) = 2 \<and>
   fst (undo_pop example_ext example_pushed) = PyNone \<and>
   fst (undo_pop example_ext example_pushed) \<noteq> PyBool True \<and>
   \<not> truthy (fst (undo_pop example_ext example_pushed))"
  by (simp add: example_pushed_eval example_ctx_eval eval_defs)

text \<open>
  Claim C3, amended. \<open>undo_pop\<close>, \<open>redo_pop\<close> and \<open>undo_cancel\<close> return \<open>None\<close> in
  every case. On an empty stack they leave the session as it is; otherwise they pop the
  top snapshot and restore it: its mesh object becomes the live target and its tool the
  active tool.
\<close>

theorem history_result_protocol:
  "fst (undo_pop X ctx) = PyNone \<and> fst (redo_pop X ctx) = PyNone \<and>
   fst (undo_cancel X ctx) = PyNone \<and>
   (undo ctx = [] \<longrightarrow> snd (undo_pop X ctx) = ctx \<and> snd (undo_cancel X ctx) = ctx) \<and>
   (redo ctx = [] \<longrightarrow> snd (redo_pop X ctx) = ctx) \<and>
   (undo ctx \<noteq> [] \<longrightarrow>
      undo (snd (undo_pop X ctx)) = butlast (undo ctx) \<and>
      rftarget (snd (undo_pop X ctx)) = s_rftarget (last (undo ctx)) \<and>
      tool (snd (undo_pop X ctx)) = s_tool (last (undo ctx)) \<and>
      undo (snd (undo_cancel X ctx)) = butlast (undo ctx) \<and>
      rftarget (snd (undo_cancel X ctx)) = s_rftarget (last (undo ctx)) \<and>
      tool (snd (undo_cancel X ctx)) = s_tool (last (undo ctx))) \<and>
   (redo ctx \<noteq> [] \<longrightarrow>
      redo (snd (redo_pop X ctx)) = butlast (redo ctx) \<and>
      rftarget (snd (redo_pop X ctx)) = s_rftarget (last (redo ctx)) \<and>
      tool (snd (redo_pop X ctx)) = s_tool (last (redo ctx)))"
proof -
  have r: "fst (undo_pop X ctx) = PyNone" "fst (redo_pop X ctx) = PyNone"
    "fst (undo_cancel X ctx) = PyNone"
    by (simp_all add: undo_pop_def redo_pop_def undo_cancel_def Let_def split: prod.splits)
  have e: "undo ctx = [] \<longrightarrow> snd (undo_pop X ctx) = ctx \<and> snd (undo_cancel X ctx) = ctx"
    "redo ctx = [] \<longrightarrow> snd (redo_pop X ctx) = ctx"
    by (simp_all add: undo_pop_def redo_pop_def undo_cancel_def)
  show ?thesis
    using r e by (simp add: undo_pop_fields undo_cancel_fields redo_pop_fields)
qed

theorem history_result_protocol_witness:
  "undo example_undone \<noteq> [] \<and> redo example_undone \<noteq> [] \<and> undo example_ctx = [] \<and>
   redo example_ctx = [] \<and>
   fst (undo_pop example_ext example_undone) = PyNone \<and>
   undo_pop example_ext example_ctx = (PyNone, example_ctx) \<and>
   redo_pop example_ext example_ctx = (PyNone, example_ctx) \<and>
   undo_cancel example_ext example_ctx = (PyNone, example_ctx) \<and>
   rftarget (snd (undo_pop example_ext example_undone)) = 2 \<and>
   rftarget (snd (undo_cancel example_ext example_undone)) = 2 \<and>
   rftarget (snd (redo_pop example_ext example_undone)) = 4"
  using history_result_protocol[of example_ext example_undone]
    history_result_protocol[of example_ext example_ctx]
  by (simp add: example_undone_eval example_ctx_eval prod_eq_iff)

text \<open>
  Claim C5 fails as stated: after two pushes labelled \<open>move\<close> and one \<open>undo_pop\<close>, the
  redo stack holds a snapshot and the top of the undo stack is labelled \<open>move\<close>; a push
  of \<open>move\<close> with \<open>repeatable=True\<close> returns at the guard and leaves the redo stack, and the
  next \<open>redo_pop\<close> restores that snapshot.
\<close>

theorem push_clears_redo_counterexample:
  "redo example_undone \<noteq> [] \<and>
   redo (snd (undo_push example_ext ''move'' True example_undone)) \<noteq> [] \<and>
   rftarget (snd (undo_push example_ext ''move'' True example_undone)) = 3 \<and>
   rftarget (snd (redo_pop example_ext (snd (undo_push example_ext ''move'' True example_undone)))) = 4"
  by (simp add: example_undone_eval example_ctx_eval eval_defs)

text \<open>
  Claim C5, amended. After a call of \<open>undo_push\<close> that is not skipped as a repeat
  (\<open>repeatable\<close> false, or the undo stack empty, or another label on top) the redo stack
  is empty, and an immediately following \<open>redo_pop\<close> does nothing and returns \<open>None\<close>.
  A push skipped as a repeat leaves the redo stack as it was.
\<close>

theorem push_clears_redo:
  "(\<not> (r \<and> undo ctx \<noteq> [] \<and> action (last (undo ctx)) = a) \<longrightarrow>
      redo (snd (undo_push X a r ctx)) = [] \<and>
      redo_pop X (snd (undo_push X a r ctx)) = (PyNone, snd (undo_push X a r ctx))) \<and>
   (r \<and> undo ctx \<noteq> [] \<and> action (last (undo ctx)) = a \<longrightarrow>
      redo (snd (undo_push X a r ctx)) = redo ctx)"
proof (intro conjI impI)
  assume "\<not> (r \<and> undo ctx \<noteq> [] \<and> action (last (undo ctx)) = a)"
  then have n: "\<not> skipped a r ctx" by (simp add: skipped_def)
  show "redo (snd (undo_push X a r ctx)) = []" by (rule undo_push_fields(2)[OF n])
  then show "redo_pop X (snd (undo_push X a r ctx)) = (PyNone, snd (undo_push X a r ctx))"
    by (simp add: redo_pop_def)
next
  assume "r \<and> undo ctx \<noteq> [] \<and> action (last (undo ctx)) = a"
  then show "redo (snd (undo_push X a r ctx)) = redo ctx" by (simp add: undo_push_def)
qed

theorem push_clears_redo_witness:
  "redo example_undone \<noteq> [] \<and>
   redo (snd (undo_push example_ext ''move'' False example_undone)) = [] \<and>
   redo (snd (undo_push example_ext ''drag'' True example_undone)) = [] \<and>
   redo_pop example_ext (snd (undo_push example_ext ''drag'' True example_undone)) =
     (PyNone, snd (undo_push example_ext ''drag'' True example_undone)) \<and>
   redo (snd (undo_push example_ext ''move'' True example_undone)) = redo example_undone"
  using push_clears_redo[of False example_undone "''move''" example_ext]
    push_clears_redo[of True example_undone "''drag''" example_ext]
    push_clears_redo[of True example_undone "''move''" example_ext]
  by (simp add: example_undone_eval example_ctx_eval)

text \<open>
  Claim C6 (repeatable push). \<open>undo_push(action, repeatable=True)\<close> with the same label on
  top of the undo stack returns at once: the whole context, so both stacks, the store of
  meshes and the live target, is unchanged.
\<close>

theorem repeatable_push_noop:
  "undo ctx \<noteq> [] \<Longrightarrow> action (last (undo ctx)) = a \<Longrightarrow> undo_push X a True ctx = (PyNone, ctx)"
  by (simp add: undo_push_def)

theorem repeatable_push_noop_witness:
  "undo example_pushed \<noteq> [] \<and> action (last (undo example_pushed)) = ''move'' \<and>
   undo_push example_ext ''move'' True example_pushed = (PyNone, example_pushed) \<and>
   length (undo (snd (undo_push example_ext ''move'' True example_pushed))) = 1 \<and>
   live_mesh (snd (undo_push example_ext ''move'' True example_pushed)) = (10, 1)"
proof -
  have a: "undo example_pushed \<noteq> []" "action (last (undo example_pushed)) = ''move''"
    by (simp_all add: example_pushed_eval)
  from repeatable_push_noop[OF a, of example_ext] a show ?thesis
    by (simp add: example_pushed_eval example_ctx_eval live_mesh_def)
qed

lemma length_undo_push:
  "length (undo (snd (undo_push X a False ctx))) = min undo_depth (Suc (length (undo ctx)))"
  by (simp add: undo_push_fields limit_stack_drop) 

lemma length_undo_push_mutate:
  "length (undo ctx) \<le> undo_depth \<Longrightarrow>
   length (undo (push_mutate X steps ctx)) = min undo_depth (length (undo ctx) + length steps)"
proof (induction steps arbitrary: ctx)
  case Nil
  then show ?case by simp
next
  case (Cons x steps)
  obtain a f where x: "x = (a, f)" by (cases x)
  let ?c = "mutate f (snd (undo_push X a False ctx))"
  have l: "length (undo ?c) = min undo_depth (Suc (length (undo ctx)))"
    by (simp add: length_undo_push)
  then have "length (undo ?c) \<le> undo_depth" by simp
  from Cons.IH[OF this] l Cons.prems show ?case by (simp add: x)
qed

text \<open>
  Claim C4 (bounded undo stack). From empty stacks, after any list of pushes, pops,
  redos, cancels, mesh mutations and tool switches the undo stack holds at most
  \<open>undo_depth\<close> snapshots, although \<open>redo_pop\<close> appends without a check: both stacks
  together never hold more than \<open>undo_depth\<close>. A push onto a full stack drops the oldest
  snapshot (the head) and appends the new one; below the bound nothing is dropped.
\<close>

theorem undo_bounded:
  "(undo ctx = [] \<and> redo ctx = [] \<longrightarrow> length (undo (run X ops ctx)) \<le> undo_depth) \<and>
   (\<not> (r \<and> undo ctx \<noteq> [] \<and> action (last (undo ctx)) = a) \<and> length (undo ctx) = undo_depth \<longrightarrow>
      undo (snd (undo_push X a r ctx)) =
        tl (undo ctx) @ [\<lparr>action = a, s_tool = tool ctx, s_rftarget = length (heap ctx)\<rparr>]) \<and>
   (\<not> (r \<and> undo ctx \<noteq> [] \<and> action (last (undo ctx)) = a) \<and> length (undo ctx) < undo_depth \<longrightarrow>
      undo (snd (undo_push X a r ctx)) =
        undo ctx @ [\<lparr>action = a, s_tool = tool ctx, s_rftarget = length (heap ctx)\<rparr>])"
proof (intro conjI impI)
  assume "undo ctx = [] \<and> redo ctx = []"
  then have "bounded ctx" by (simp add: bounded_def)
  then have "bounded (run X ops ctx)" by (rule bounded_run)
  then show "length (undo (run X ops ctx)) \<le> undo_depth" by (simp add: bounded_def)
next
  assume a: "\<not> (r \<and> undo ctx \<noteq> [] \<and> action (last (undo ctx)) = a) \<and> length (undo ctx) = undo_depth"
  then have n: "\<not> skipped a r ctx" by (simp add: skipped_def)
  from a have "undo ctx \<noteq> []" by (auto simp: undo_depth_def)
  then obtain y ys where u: "undo ctx = y # ys" by (cases "undo ctx") auto
  show "undo (snd (undo_push X a r ctx)) =
        tl (undo ctx) @ [\<lparr>action = a, s_tool = tool ctx, s_rftarget = length (heap ctx)\<rparr>]"
    using a by (simp add: undo_push_fields(1)[OF n] limit_stack_drop u)
next
  assume a: "\<not> (r \<and> undo ctx \<noteq> [] \<and> action (last (undo ctx)) = a) \<and> length (undo ctx) < undo_depth"
  then have n: "\<not> skipped a r ctx" by (simp add: skipped_def)
  show "undo (snd (undo_push X a r ctx)) =
        undo ctx @ [\<lparr>action = a, s_tool = tool ctx, s_rftarget = length (heap ctx)\<rparr>]"
    using a by (simp add: undo_push_fields(1)[OF n] limit_stack_drop)
qed

theorem undo_bounded_witness:
  "undo example_ctx = [] \<and> redo example_ctx = [] \<and>
   length (undo (run example_ext example_ops example_ctx)) \<le> undo_depth \<and>
   length (undo example_full) = undo_depth \<and>
   undo (snd (undo_push example_ext ''z'' False example_full)) =
     tl (undo example_full) @
       [\<lparr>action = ''z'', s_tool = tool example_full, s_rftarget = length (heap example_full)\<rparr>] \<and>
   length (undo example_pushed) < undo_depth \<and>
   undo (snd (undo_push example_ext ''z'' True example_pushed)) =
     undo example_pushed @ [\<lparr>action = ''z'', s_tool = 1, s_rftarget = 3\<rparr>]"
proof -
  have e: "undo example_ctx = [] \<and> redo example_ctx = []" by (simp add: example_ctx_eval)
  have f: "length (undo example_full) = undo_depth"
    by (simp add: example_full_def length_undo_push_mutate example_ctx_eval undo_depth_def)
  have p: "length (undo example_pushed) < undo_depth"
    "action (last (undo example_pushed)) \<noteq> ''z''"
    "tool example_pushed = 1" "length (heap example_pushed) = 3"
    by (simp_all add: example_pushed_eval example_ctx_eval undo_depth_def)
  show ?thesis
    using undo_bounded[where ctx = example_ctx and X = example_ext and ops = example_ops
        and r = False and a = "''z''"]
      undo_bounded[where r = False and ctx = example_full and a = "''z''" and X = example_ext
        and ops = "[]"]
      undo_bounded[where r = True and ctx = example_pushed and a = "''z''" and X = example_ext
        and ops = "[]"] e f p
    by simp
qed

text \<open>
  Claim C7 (undo then redo). In a well-formed context with a non-empty undo stack,
  \<open>undo_pop\<close> followed by \<open>redo_pop\<close> makes the live target a copy of the mesh as it was
  before the \<open>undo_pop\<close>, on which \<open>rewrap\<close> and \<open>dirty\<close> have run: it is equal under every
  observation these two preserve. The active tool is the tool that was active before, the
  redo stack is as before and the undo stack has its old length.
\<close>

theorem undo_redo_roundtrip:
  assumes "well_formed ctx" and "undo ctx \<noteq> []"
    and "\<forall>m. geom (dirty X (rewrap X m)) = geom m"
  shows "live_mesh (snd (redo_pop X (snd (undo_pop X ctx)))) = dirty X (rewrap X (live_mesh ctx)) \<and>
         geom (live_mesh (snd (redo_pop X (snd (undo_pop X ctx))))) = geom (live_mesh ctx) \<and>
         tool (snd (redo_pop X (snd (undo_pop X ctx)))) = tool ctx \<and>
         redo (snd (redo_pop X (snd (undo_pop X ctx)))) = redo ctx \<and>
         length (undo (snd (redo_pop X (snd (undo_pop X ctx))))) = length (undo ctx)"
proof -
  let ?c1 = "snd (undo_pop X ctx)"
  let ?c2 = "snd (redo_pop X ?c1)"
  from assms(2) obtain us top where u: "undo ctx = us @ [top]"
    by (cases "undo ctx" rule: rev_cases) auto
  have b: "s_rftarget top < length (heap ctx)"
    using wf_undo_bound[OF assms(1), of top] by (simp add: u)
  have r1: "redo ?c1 \<noteq> []" by (simp add: undo_pop_fields[OF assms(2)])
  have l1: "last (redo ?c1) = \<lparr>action = ''undo'', s_tool = tool ctx, s_rftarget = length (heap ctx)\<rparr>"
    by (simp add: undo_pop_fields[OF assms(2)])
  have h1: "length (heap ?c1) = Suc (length (heap ctx))"
    "heap ?c1 ! length (heap ctx) = live_mesh ctx"
    using b by (simp_all add: undo_pop_fields[OF assms(2)] u live_mesh_def)
  have live: "live_mesh ?c2 = dirty X (rewrap X (live_mesh ctx))"
    by (simp add: live_mesh_def redo_pop_fields[OF r1] l1 h1 nth_append)
  have t: "tool ?c2 = tool ctx" by (simp add: redo_pop_fields[OF r1] l1)
  have r: "redo ?c2 = redo ctx" by (simp add: redo_pop_fields[OF r1] undo_pop_fields[OF assms(2)])
  have n: "length (undo ?c2) = length (undo ctx)"
    by (simp add: redo_pop_fields[OF r1] undo_pop_fields[OF assms(2)] u)
  show ?thesis using live t r n assms(3) by simp
qed

theorem undo_redo_roundtrip_witness:
  "well_formed example_undone \<and> undo example_undone \<noteq> [] \<and>
   (\<forall>m. fst (dirty example_ext (rewrap example_ext m)) = fst m) \<and>
   live_mesh example_undone = (11, 2) \<and> tool example_undone = 1 \<and>
   live_mesh (snd (redo_pop example_ext (snd (undo_pop example_ext example_undone)))) = (11, 3) \<and>
   tool (snd (redo_pop example_ext (snd (undo_pop example_ext example_undone)))) = 1"
proof -
  have w: "well_formed example_undone"
    unfolding example_undone_def example_ctx_def
    by (intro wf_undo_pop wf_push_mutate wf_init_context)
  have n: "undo example_undone \<noteq> []" by (simp add: example_undone_eval)
  have g: "\<forall>m. fst (dirty example_ext (rewrap example_ext m)) = fst m"
    by (simp add: example_ext_def split: prod.splits)
  have v: "live_mesh example_undone = (11, 2)" "tool example_undone = 1"
    by (simp_all add: example_undone_eval example_ctx_eval live_mesh_def)
  have d: "dirty example_ext (rewrap example_ext (11, 2)) = (11, 3)"
    by (simp add: example_ext_def)
  from undo_redo_roundtrip[OF w n g] w n g v d show ?thesis by simp
qed

subsection \<open>The queries\<close>

lemma crawl_step_none:
  "\<not> is_hit b \<Longrightarrow> crawl_loop (s # ss) ray (b, bo) = crawl_loop ss ray (src_raycast s ray, Some s)"
  by (cases b; cases "src_raycast s ray") (simp add: is_hit_def)

lemma crawl_step_hit:
  assumes "is_hit b" "hit_ok b" "hit_ok (src_raycast s ray)"
  shows "crawl_loop (s # ss) ray (b, bo) =
           (if is_hit (src_raycast s ray) \<and> hit_dist (src_raycast s ray) < hit_dist b
            then crawl_loop ss ray (src_raycast s ray, Some s)
            else crawl_loop ss ray (b, bo))"
  using assms
  by (cases b; cases "src_raycast s ray")
     (auto simp: is_hit_def hit_ok_def hit_dist_def no_hit_def split: option.splits)

lemma crawl_loop_hit:
  assumes "list_all (\<lambda>x. hit_ok (src_raycast x ray)) ss" "is_hit b" "hit_ok b"
  shows "(crawl_loop ss ray (b, bo) = Inr (b, bo) \<and>
            list_all (\<lambda>x. is_hit (src_raycast x ray) \<longrightarrow> hit_dist b \<le> hit_dist (src_raycast x ray)) ss) \<or>
         (\<exists>pre s post. ss = pre @ s # post \<and>
            crawl_loop ss ray (b, bo) = Inr (src_raycast s ray, Some s) \<and>
            hit_dist (src_raycast s ray) < hit_dist b \<and> owns_nearest ray pre s post)"
  using assms
proof (induction ss arbitrary: b bo)
  case Nil
  then show ?case by simp
next
  case (Cons s ss)
  let ?h = "src_raycast s ray"
  from Cons.prems have oks: "hit_ok ?h" and okss: "list_all (\<lambda>x. hit_ok (src_raycast x ray)) ss"
    by simp_all
  note step = crawl_step_hit[OF Cons.prems(2) Cons.prems(3) oks, of ss bo]
  show ?case
  proof (cases "is_hit ?h \<and> hit_dist ?h < hit_dist b")
    case True
    then have hs: "is_hit ?h" and lt: "hit_dist ?h < hit_dist b" by simp_all
    from Cons.IH[OF okss hs oks, of "Some s"]
    show ?thesis
    proof (elim disjE exE conjE)
      assume r: "crawl_loop ss ray (?h, Some s) = Inr (?h, Some s)"
        and m: "list_all (\<lambda>x. is_hit (src_raycast x ray) \<longrightarrow> hit_dist ?h \<le> hit_dist (src_raycast x ray)) ss"
      have "s # ss = [] @ s # ss" by simp
      moreover have "crawl_loop (s # ss) ray (b, bo) = Inr (?h, Some s)"
        using step True r by simp
      moreover have "owns_nearest ray [] s ss" using hs m by (simp add: owns_nearest_def)
      ultimately show ?thesis using lt by blast
    next
      fix pre t post
      assume e: "ss = pre @ t # post"
        and r: "crawl_loop ss ray (?h, Some s) = Inr (src_raycast t ray, Some t)"
        and l: "hit_dist (src_raycast t ray) < hit_dist ?h"
        and o: "owns_nearest ray pre t post"
      have "s # ss = (s # pre) @ t # post" using e by simp
      moreover have "crawl_loop (s # ss) ray (b, bo) = Inr (src_raycast t ray, Some t)"
        using step True r by simp
      moreover have "owns_nearest ray (s # pre) t post" using o l by (simp add: owns_nearest_def)
      moreover have "hit_dist (src_raycast t ray) < hit_dist b" using l lt by simp
      ultimately show ?thesis by blast
    qed
  next
    case False
    then have ge: "is_hit ?h \<longrightarrow> hit_dist b \<le> hit_dist ?h" by auto
    from Cons.IH[OF okss Cons.prems(2) Cons.prems(3), of bo]
    show ?thesis
    proof (elim disjE exE conjE)
      assume r: "crawl_loop ss ray (b, bo) = Inr (b, bo)"
        and m: "list_all (\<lambda>x. is_hit (src_raycast x ray) \<longrightarrow> hit_dist b \<le> hit_dist (src_raycast x ray)) ss"
      have "crawl_loop (s # ss) ray (b, bo) = Inr (b, bo)" using step False r by simp
      then show ?thesis using m ge by simp
    next
      fix pre t post
      assume e: "ss = pre @ t # post"
        and r: "crawl_loop ss ray (b, bo) = Inr (src_raycast t ray, Some t)"
        and l: "hit_dist (src_raycast t ray) < hit_dist b"
        and o: "owns_nearest ray pre t post"
      have "s # ss = (s # pre) @ t # post" using e by simp
      moreover have "crawl_loop (s # ss) ray (b, bo) = Inr (src_raycast t ray, Some t)"
        using step False r by simp
      moreover have "owns_nearest ray (s # pre) t post" using o l ge by (auto simp: owns_nearest_def)
      ultimately show ?thesis using l by blast
    qed
  qed
qed

lemma miss_is_no_hit: "\<not> is_hit h \<Longrightarrow> hit_ok h \<Longrightarrow> h = no_hit"
  by (cases "fst h") (simp_all add: is_hit_def hit_ok_def)

lemma crawl_loop_top:
  assumes "list_all (\<lambda>x. hit_ok (src_raycast x ray)) ss"
  shows "(list_all (\<lambda>x. \<not> is_hit (src_raycast x ray)) ss \<and>
            (\<exists>bo'. crawl_loop ss ray (no_hit, bo) = Inr (no_hit, bo'))) \<or>
         (\<exists>pre s post. ss = pre @ s # post \<and>
            crawl_loop ss ray (no_hit, bo) = Inr (src_raycast s ray, Some s) \<and>
            owns_nearest ray pre s post)"
  using assms
proof (induction ss arbitrary: bo)
  case Nil
  then show ?case by simp
next
  case (Cons s ss)
  let ?h = "src_raycast s ray"
  from Cons.prems have oks: "hit_ok ?h" and okss: "list_all (\<lambda>x. hit_ok (src_raycast x ray)) ss"
    by simp_all
  have nh: "\<not> is_hit no_hit" by (simp add: is_hit_def no_hit_def)
  have step: "crawl_loop (s # ss) ray (no_hit, bo) = crawl_loop ss ray (?h, Some s)"
    by (rule crawl_step_none[OF nh])
  show ?case
  proof (cases "is_hit ?h")
    case True
    from crawl_loop_hit[OF okss True oks, of "Some s"]
    show ?thesis
    proof (elim disjE exE conjE)
      assume r: "crawl_loop ss ray (?h, Some s) = Inr (?h, Some s)"
        and m: "list_all (\<lambda>x. is_hit (src_raycast x ray) \<longrightarrow> hit_dist ?h \<le> hit_dist (src_raycast x ray)) ss"
      have 1: "s # ss = [] @ s # ss" by simp
      have 2: "owns_nearest ray [] s ss" using True m by (simp add: owns_nearest_def)
      have 3: "crawl_loop (s # ss) ray (no_hit, bo) = Inr (?h, Some s)"
        by (simp only: step r)
      from 1 3 2 show ?thesis by blast
    next
      fix pre t post
      assume e: "ss = pre @ t # post"
        and r: "crawl_loop ss ray (?h, Some s) = Inr (src_raycast t ray, Some t)"
        and l: "hit_dist (src_raycast t ray) < hit_dist ?h"
        and o: "owns_nearest ray pre t post"
      have 1: "s # ss = (s # pre) @ t # post" using e by simp
      have 2: "owns_nearest ray (s # pre) t post" using o l by (simp add: owns_nearest_def)
      have 3: "crawl_loop (s # ss) ray (no_hit, bo) = Inr (src_raycast t ray, Some t)"
        by (simp only: step r)
      from 1 3 2 show ?thesis by blast
    qed
  next
    case False
    then have hn: "?h = no_hit" using oks by (rule miss_is_no_hit)
    from Cons.IH[OF okss, of "Some s"]
    show ?thesis
    proof (elim disjE exE conjE)
      fix bo'
      assume m: "list_all (\<lambda>x. \<not> is_hit (src_raycast x ray)) ss"
        and r: "crawl_loop ss ray (no_hit, Some s) = Inr (no_hit, bo')"
      have 1: "list_all (\<lambda>x. \<not> is_hit (src_raycast x ray)) (s # ss)" using m False by simp
      have 3: "crawl_loop (s # ss) ray (no_hit, bo) = Inr (no_hit, bo')"
        by (simp only: step hn r)
      show ?thesis by (rule disjI1, rule conjI, rule 1, rule exI[of _ bo'], rule 3)
    next
      fix pre t post
      assume e: "ss = pre @ t # post"
        and r: "crawl_loop ss ray (no_hit, Some s) = Inr (src_raycast t ray, Some t)"
        and o: "owns_nearest ray pre t post"
      have 1: "s # ss = (s # pre) @ t # post" using e by simp
      have 2: "owns_nearest ray (s # pre) t post" using o False by (simp add: owns_nearest_def)
      have 3: "crawl_loop (s # ss) ray (no_hit, bo) = Inr (src_raycast t ray, Some t)"
        by (simp only: step hn r)
      from 1 3 2 show ?thesis by blast
    qed
  qed
qed

lemma raycast_loop_crawl:
  "crawl_loop ss ray (b, bo) = Inr (r, ro) \<Longrightarrow> raycast_loop ss ray b = Inr r"
proof (induction ss arbitrary: b bo)
  case Nil
  then show ?case by simp
next
  case (Cons s ss)
  obtain bp bn bi bdist where b: "b = (bp, bn, bi, bdist)" by (cases b)
  obtain hp hn hi hdist where h: "src_raycast s ray = (hp, hn, hi, hdist)"
    by (cases "src_raycast s ray")
  show ?case
  proof (cases bp)
    case None
    with Cons.prems have "crawl_loop ss ray ((hp, hn, hi, hdist), Some s) = Inr (r, ro)"
      by (simp add: b h)
    from Cons.IH[OF this] None show ?thesis by (simp add: b h)
  next
    case bp: (Some p)
    show ?thesis
    proof (cases hp)
      case None
      with Cons.prems bp have "crawl_loop ss ray (b, bo) = Inr (r, ro)"
        by (simp add: b h)
      from Cons.IH[OF this] None bp show ?thesis by (simp add: b h)
    next
      case hp: (Some q)
      from Cons.prems bp hp obtain x y where xy: "hdist = Some x" "bdist = Some y"
        by (cases hdist; cases bdist) (simp_all add: b h)
      show ?thesis
      proof (cases "x < y")
        case True
        with Cons.prems bp hp xy have "crawl_loop ss ray ((hp, hn, hi, hdist), Some s) = Inr (r, ro)"
          by (simp add: b h)
        from Cons.IH[OF this] True bp hp xy show ?thesis by (simp add: b h)
      next
        case False
        with Cons.prems bp hp xy have "crawl_loop ss ray (b, bo) = Inr (r, ro)"
          by (simp add: b h)
        from Cons.IH[OF this] False bp hp xy show ?thesis by (simp add: b h)
      qed
    qed
  qed
qed

lemma crawl_loop_miss:
  "list_all (\<lambda>x. fst (src_raycast x ray) = None) ss \<Longrightarrow> bp = None \<Longrightarrow>
   \<exists>r bo'. crawl_loop ss ray ((bp, bn, bi, bdist), bo) = Inr (r, bo') \<and> fst r = None"
proof (induction ss arbitrary: bp bn bi bdist bo)
  case Nil
  then show ?case by simp
next
  case (Cons s ss)
  obtain hp hn hi hdist where h: "src_raycast s ray = (hp, hn, hi, hdist)"
    by (cases "src_raycast s ray")
  from Cons.prems h have "hp = None" by simp
  with Cons.IH[of hp hn hi hdist "Some s"] Cons.prems h show ?case by simp
qed

lemma owns_nearest_hit: "owns_nearest ray pre s post \<Longrightarrow> is_hit (src_raycast s ray)"
  by (simp add: owns_nearest_def)

lemma all_miss_no_owner:
  "list_all (\<lambda>x. \<not> is_hit (src_raycast x ray)) (pre @ s # post) \<Longrightarrow> \<not> owns_nearest ray pre s post"
  by (simp add: owns_nearest_def)

lemma raycast_loop_keep:
  "is_hit b \<Longrightarrow> \<not> is_hit (src_raycast s ray) \<Longrightarrow> raycast_loop (s # ss) ray b = raycast_loop ss ray b"
  by (cases b; cases "src_raycast s ray") (auto simp: is_hit_def)

text \<open>
  Claim C2 (reduction rule of the queries). When every source answers with the no-hit
  tuple or with a hit that carries a distance, \<open>raycast_sources_Ray\<close> does not raise and:
  if no source hits, the result is the tuple of four \<open>None\<close>; otherwise it is the answer of
  a source \<open>s\<close> with \<open>rfsources = pre @ s # post\<close> whose hit is strictly nearer than every
  hit before it and at least as near as every hit after it, so the smallest distance
  wins and a tie goes to the earliest source. A source that reports no hit leaves a kept
  hit in place.
\<close>

theorem raycast_reduction:
  assumes "list_all (\<lambda>s. hit_ok (src_raycast s ray)) rfsources"
  shows "(list_all (\<lambda>s. \<not> is_hit (src_raycast s ray)) rfsources \<longrightarrow>
            raycast_sources_Ray rfsources ray = Inr no_hit) \<and>
         (\<not> list_all (\<lambda>s. \<not> is_hit (src_raycast s ray)) rfsources \<longrightarrow>
            (\<exists>pre s post. rfsources = pre @ s # post \<and>
               raycast_sources_Ray rfsources ray = Inr (src_raycast s ray) \<and>
               owns_nearest ray pre s post)) \<and>
         (is_hit b \<and> \<not> is_hit (src_raycast s' ray) \<longrightarrow>
            raycast_loop (s' # ss) ray b = raycast_loop ss ray b)"
proof (intro conjI impI)
  assume m: "list_all (\<lambda>s. \<not> is_hit (src_raycast s ray)) rfsources"
  from crawl_loop_top[OF assms, of None]
  show "raycast_sources_Ray rfsources ray = Inr no_hit"
  proof (elim disjE exE conjE)
    fix bo'
    assume "crawl_loop rfsources ray (no_hit, None) = Inr (no_hit, bo')"
    from raycast_loop_crawl[OF this] show ?thesis
      by (simp add: raycast_sources_Ray_def no_hit_def)
  next
    fix pre s post
    assume "rfsources = pre @ s # post" "owns_nearest ray pre s post"
    with m all_miss_no_owner[of ray pre s post] show ?thesis by simp
  qed
next
  assume h: "\<not> list_all (\<lambda>s. \<not> is_hit (src_raycast s ray)) rfsources"
  from crawl_loop_top[OF assms, of None]
  show "\<exists>pre s post. rfsources = pre @ s # post \<and>
          raycast_sources_Ray rfsources ray = Inr (src_raycast s ray) \<and> owns_nearest ray pre s post"
  proof (elim disjE exE conjE)
    assume "list_all (\<lambda>x. \<not> is_hit (src_raycast x ray)) rfsources"
    with h show ?thesis by simp
  next
    fix pre s post
    assume e: "rfsources = pre @ s # post" and o: "owns_nearest ray pre s post"
      and r: "crawl_loop rfsources ray (no_hit, None) = Inr (src_raycast s ray, Some s)"
    have "raycast_sources_Ray rfsources ray = Inr (src_raycast s ray)"
      using raycast_loop_crawl[OF r] by (simp add: raycast_sources_Ray_def no_hit_def)
    with e o show ?thesis by blast
  qed
next
  assume "is_hit b \<and> \<not> is_hit (src_raycast s' ray)"
  then show "raycast_loop (s' # ss) ray b = raycast_loop ss ray b"
    by (simp add: raycast_loop_keep)
qed

theorem raycast_reduction_witness:
  "list_all (\<lambda>s. hit_ok (src_raycast s example_ray)) example_sources \<and>
   map (\<lambda>s. snd (snd (snd (src_raycast s example_ray)))) example_sources = [None, Some 5, Some 2] \<and>
   raycast_sources_Ray example_sources example_ray = Inr (hit_at 2 2) \<and>
   list_all (\<lambda>s. hit_ok (src_raycast s example_ray)) miss_sources \<and>
   raycast_sources_Ray miss_sources example_ray = Inr (None, None, None, None) \<and>
   raycast_sources_Ray tie_sources example_ray = Inr (hit_at 2 1) \<and>
   raycast_sources_Ray [] example_ray = Inr (None, None, None, None)"
  using raycast_reduction[of example_ray example_sources]
    raycast_reduction[of example_ray miss_sources]
  by (simp add: raycast_sources_Ray_def example_sources_def const_source_def hit_at_def no_hit_def
      is_hit_def hit_ok_def hit_dist_def example_ray_def
      miss_sources_def tie_sources_def)

text \<open>
  Claim C9 (crawls). \<open>plane_intersection_crawl\<close> returns the empty list, without raising,
  when no source reports a hit point; \<open>plane_intersections_crawl\<close> is a list in every
  case and is empty when no source has an intersection. When some source hits (answers
  well-formed, hit points true as Python objects), \<open>plane_intersection_crawl\<close> returns what
  the routine selected by \<open>walk\<close> returns on the source that owns the nearest hit, the
  same source whose answer \<open>raycast_sources_Ray\<close> returns.
\<close>

theorem crawl_miss_and_owner:
  "(list_all (\<lambda>s. fst (src_raycast s ray) = None) rfsources \<longrightarrow>
      plane_intersection_crawl point_true rfsources ray plane walk = Inr []) \<and>
   (list_all (\<lambda>s. src_plane_intersections_crawl s plane = []) rfsources \<longrightarrow>
      plane_intersections_crawl rfsources plane = []) \<and>
   (list_all (\<lambda>s. hit_ok (src_raycast s ray)) rfsources \<and>
    \<not> list_all (\<lambda>s. \<not> is_hit (src_raycast s ray)) rfsources \<and>
    list_all (\<lambda>s. case fst (src_raycast s ray) of None \<Rightarrow> True | Some p \<Rightarrow> point_true p) rfsources \<longrightarrow>
      (\<exists>pre s post. rfsources = pre @ s # post \<and> owns_nearest ray pre s post \<and>
         raycast_sources_Ray rfsources ray = Inr (src_raycast s ray) \<and>
         plane_intersection_crawl point_true rfsources ray plane walk =
           Inr (if walk then src_plane_intersection_walk_crawl s ray plane
                else src_plane_intersection_crawl s ray plane)))"
proof (intro conjI impI)
  assume "list_all (\<lambda>s. fst (src_raycast s ray) = None) rfsources"
  from crawl_loop_miss[OF this, of None None None None None]
  obtain r bo' where "crawl_loop rfsources ray ((None, None, None, None), None) = Inr (r, bo')"
    and "fst r = None" by blast
  then show "plane_intersection_crawl point_true rfsources ray plane walk = Inr []"
    by (cases r) (simp add: plane_intersection_crawl_def)
next
  assume "list_all (\<lambda>s. src_plane_intersections_crawl s plane = []) rfsources"
  then show "plane_intersections_crawl rfsources plane = []"
    by (simp add: plane_intersections_crawl_def list_all_iff)
next
  assume a: "list_all (\<lambda>s. hit_ok (src_raycast s ray)) rfsources \<and>
    \<not> list_all (\<lambda>s. \<not> is_hit (src_raycast s ray)) rfsources \<and>
    list_all (\<lambda>s. case fst (src_raycast s ray) of None \<Rightarrow> True | Some p \<Rightarrow> point_true p) rfsources"
  then have ok: "list_all (\<lambda>s. hit_ok (src_raycast s ray)) rfsources"
    and h: "\<not> list_all (\<lambda>s. \<not> is_hit (src_raycast s ray)) rfsources"
    and t: "list_all (\<lambda>s. case fst (src_raycast s ray) of None \<Rightarrow> True | Some p \<Rightarrow> point_true p) rfsources"
    by simp_all
  from crawl_loop_top[OF ok, of None]
  show "\<exists>pre s post. rfsources = pre @ s # post \<and> owns_nearest ray pre s post \<and>
         raycast_sources_Ray rfsources ray = Inr (src_raycast s ray) \<and>
         plane_intersection_crawl point_true rfsources ray plane walk =
           Inr (if walk then src_plane_intersection_walk_crawl s ray plane
                else src_plane_intersection_crawl s ray plane)"
  proof (elim disjE exE conjE)
    assume "list_all (\<lambda>x. \<not> is_hit (src_raycast x ray)) rfsources"
    with h show ?thesis by simp
  next
    fix pre s post
    assume e: "rfsources = pre @ s # post" and o: "owns_nearest ray pre s post"
      and r: "crawl_loop rfsources ray (no_hit, None) = Inr (src_raycast s ray, Some s)"
    have 1: "raycast_sources_Ray rfsources ray = Inr (src_raycast s ray)"
      using raycast_loop_crawl[OF r] by (simp add: raycast_sources_Ray_def no_hit_def)
    obtain hp hn hi hdist where hs: "src_raycast s ray = (hp, hn, hi, hdist)"
      by (cases "src_raycast s ray")
    from owns_nearest_hit[OF o] hs obtain p where p: "hp = Some p"
      by (cases hp) (simp_all add: is_hit_def)
    from t e hs p have pt: "point_true p" by simp
    have 2: "plane_intersection_crawl point_true rfsources ray plane walk =
           Inr (if walk then src_plane_intersection_walk_crawl s ray plane
                else src_plane_intersection_crawl s ray plane)"
      using r pt by (simp add: plane_intersection_crawl_def no_hit_def hs p)
    from e o 1 2 show ?thesis by blast
  qed
qed

theorem crawl_miss_and_owner_witness:
  "list_all (\<lambda>s. fst (src_raycast s example_ray) = None) miss_sources \<and>
   plane_intersection_crawl (\<lambda>p. True) miss_sources example_ray example_plane False = Inr [] \<and>
   plane_intersection_crawl (\<lambda>p. True) miss_sources example_ray example_plane True = Inr [] \<and>
   plane_intersections_crawl miss_sources example_plane = [] \<and>
   plane_intersection_crawl (\<lambda>p. True) example_sources example_ray example_plane False =
     Inr [''near'', ''nearer''] \<and>
   plane_intersection_crawl (\<lambda>p. True) example_sources example_ray example_plane True =
     Inr [''nearer'', ''near''] \<and>
   plane_intersection_crawl (\<lambda>p. True) tie_sources example_ray example_plane False = Inr [''first'']"
  using crawl_miss_and_owner[of example_ray miss_sources "\<lambda>p. True" example_plane False]
    crawl_miss_and_owner[of example_ray example_sources "\<lambda>p. True" example_plane False]
  by (simp add: raycast_sources_Ray_def example_sources_def const_source_def hit_at_def no_hit_def
      is_hit_def hit_ok_def hit_dist_def example_ray_def
      miss_sources_def tie_sources_def plane_intersection_crawl_def
      plane_intersections_crawl_def example_plane_def)

text \<open>
  Claim C10 (result shapes). For \<open>xy = None\<close>, \<open>raycast_sources_Point2D_all\<close> returns the
  tuple of four \<open>None\<close>; for any other \<open>xy\<close> it returns the list of all hits, which is never
  that tuple. \<open>raycast_sources_Point2D\<close> returns the tuple of four \<open>None\<close> for
  \<open>xy = None\<close>, and the same when \<open>xy\<close> is a point and no source hits.
\<close>

theorem point2d_all_result_shape:
  "raycast_sources_Point2D_all Point2D_to_Ray rfsources None = ResTuple (None, None, None, None) \<and>
   raycast_sources_Point2D_all Point2D_to_Ray rfsources (Some xy) =
     ResList (raycast_sources_Ray_all rfsources (Point2D_to_Ray xy)) \<and>
   raycast_sources_Point2D_all Point2D_to_Ray rfsources None \<noteq>
     raycast_sources_Point2D_all Point2D_to_Ray rfsources' (Some xy') \<and>
   raycast_sources_Point2D Point2D_to_Ray rfsources None = Inr (None, None, None, None) \<and>
   (list_all (\<lambda>s. hit_ok (src_raycast s (Point2D_to_Ray xy))) rfsources \<and>
    list_all (\<lambda>s. \<not> is_hit (src_raycast s (Point2D_to_Ray xy))) rfsources \<longrightarrow>
      raycast_sources_Point2D Point2D_to_Ray rfsources (Some xy) =
        raycast_sources_Point2D Point2D_to_Ray rfsources None)"
proof -
  have "list_all (\<lambda>s. hit_ok (src_raycast s (Point2D_to_Ray xy))) rfsources \<and>
    list_all (\<lambda>s. \<not> is_hit (src_raycast s (Point2D_to_Ray xy))) rfsources \<longrightarrow>
      raycast_sources_Ray rfsources (Point2D_to_Ray xy) = Inr no_hit"
  proof
    assume a: "list_all (\<lambda>s. hit_ok (src_raycast s (Point2D_to_Ray xy))) rfsources \<and>
      list_all (\<lambda>s. \<not> is_hit (src_raycast s (Point2D_to_Ray xy))) rfsources"
    then have ok: "list_all (\<lambda>s. hit_ok (src_raycast s (Point2D_to_Ray xy))) rfsources"
      and m: "list_all (\<lambda>s. \<not> is_hit (src_raycast s (Point2D_to_Ray xy))) rfsources" by simp_all
    from crawl_loop_top[OF ok, of None]
    show "raycast_sources_Ray rfsources (Point2D_to_Ray xy) = Inr no_hit"
    proof (elim disjE exE conjE)
      fix bo'
      assume "crawl_loop rfsources (Point2D_to_Ray xy) (no_hit, None) = Inr (no_hit, bo')"
      from raycast_loop_crawl[OF this] show ?thesis
        by (simp add: raycast_sources_Ray_def no_hit_def)
    next
      fix pre s post
      assume "rfsources = pre @ s # post" "owns_nearest (Point2D_to_Ray xy) pre s post"
      with m all_miss_no_owner[of "Point2D_to_Ray xy" pre s post] show ?thesis by simp
    qed
  qed
  then show ?thesis
    by (simp add: raycast_sources_Point2D_all_def raycast_sources_Point2D_def no_hit_def)
qed

theorem point2d_all_result_shape_witness:
  "raycast_sources_Point2D_all (\<lambda>xy. example_ray) example_sources None =
     ResTuple (None, None, None, None) \<and>
   raycast_sources_Point2D_all (\<lambda>xy. example_ray) example_sources (Some (3, 4)) =
     ResList [hit_at 5 1, hit_at 2 2] \<and>
   raycast_sources_Point2D_all (\<lambda>xy. example_ray) miss_sources (Some (3, 4)) = ResList [] \<and>
   list_all (\<lambda>s. hit_ok (src_raycast s example_ray)) miss_sources \<and>
   list_all (\<lambda>s. \<not> is_hit (src_raycast s example_ray)) miss_sources \<and>
   raycast_sources_Point2D (\<lambda>xy. example_ray) miss_sources (Some (3, 4)) =
     Inr (None, None, None, None) \<and>
   raycast_sources_Point2D (\<lambda>xy. example_ray) miss_sources None = Inr (None, None, None, None)"
  using point2d_all_result_shape[of "\<lambda>xy. example_ray" miss_sources "(3, 4)"]
    point2d_all_result_shape[of "\<lambda>xy. example_ray" example_sources "(3, 4)"]
  by (simp add: raycast_sources_Ray_def example_sources_def const_source_def hit_at_def no_hit_def
      is_hit_def hit_ok_def hit_dist_def example_ray_def
      miss_sources_def raycast_sources_Point2D_def raycast_sources_Point2D_all_def
      raycast_sources_Ray_all_def)

subsection \<open>Navigation and dispatch\<close>

lemma add_effects_fields [simp]:
  "undo (add_effects es ctx) = undo ctx"
  "redo (add_effects es ctx) = redo ctx"
  "tool (add_effects es ctx) = tool ctx"
  "rftarget (add_effects es ctx) = rftarget ctx"
  "heap (add_effects es ctx) = heap ctx"
  "mode (add_effects es ctx) = mode ctx"
  "nav (add_effects es ctx) = nav ctx"
  "exit (add_effects es ctx) = exit ctx"
  by (simp_all add: add_effects_def)

lemma autosave_step_fields [simp]:
  "undo (autosave_step ev ctx) = undo ctx"
  "redo (autosave_step ev ctx) = redo ctx"
  "tool (autosave_step ev ctx) = tool ctx"
  "rftarget (autosave_step ev ctx) = rftarget ctx"
  "heap (autosave_step ev ctx) = heap ctx"
  "mode (autosave_step ev ctx) = mode ctx"
  "nav (autosave_step ev ctx) = nav ctx"
  "exit (autosave_step ev ctx) = exit ctx"
  by (simp_all add: autosave_step_def Let_def)

text \<open>
  Claim C8, amended. On an event that carries a navigation action, or with the timer
  running while \<open>nav\<close> is set, \<open>modal\<close> never calls the handler of the current mode: its
  result is the same for every table of handlers, and the active tool, the mode, both
  stacks and the target are as before, whatever tool shortcut is pressed. The result is
  \<open>{'pass'}\<close> unless a check that stands earlier ends the event first, which is the case
  exactly when \<open>tool help\<close> is pressed or the window manager reports \<open>hover\<close> (and no
  window or autosave action is in use); when no earlier check fires, \<open>nav\<close> is set.
  With \<open>tool help\<close> pressed the help is toggled and the result is empty (stay in modal);
  on \<open>hover\<close> the pointer widget is cleared and the result is \<open>{'confirm'}\<close> when the exit
  flag is set and empty otherwise; in both cases \<open>nav\<close> keeps its value.
\<close>

theorem navigation_precedes_dispatch:
  assumes "navigating ev \<or> (timer ev \<and> nav ctx)"
    and "raycast_sources_Point2D Point2D_to_Ray rfsources (mouse ev) = Inr h"
  shows "\<exists>ret c. modal Point2D_to_Ray rfsources fsm ev ctx = Inr (ret, c) \<and>
           modal Point2D_to_Ray rfsources fsm' ev ctx = Inr (ret, c) \<and>
           tool c = tool ctx \<and> mode c = mode ctx \<and> undo c = undo ctx \<and> redo c = redo ctx \<and>
           rftarget c = rftarget ctx \<and> heap c = heap ctx \<and>
           (using_action ev ''window actions'' \<or> using_action ev ''autosave'' \<or>
            (\<not> pressed ev ''tool help'' \<and> \<not> hover (wm_ret ev)) \<longrightarrow> ret = {''pass''}) \<and>
           (\<not> using_action ev ''window actions'' \<and> \<not> using_action ev ''autosave'' \<and>
            \<not> pressed ev ''tool help'' \<and> \<not> hover (wm_ret ev) \<longrightarrow> nav c) \<and>
           (\<not> using_action ev ''window actions'' \<and> \<not> using_action ev ''autosave'' \<and>
            pressed ev ''tool help'' \<longrightarrow>
              ret = {} \<and> effects c = effects ctx @ [ToggleToolHelp] \<and> nav c = nav ctx) \<and>
           (\<not> using_action ev ''window actions'' \<and> \<not> using_action ev ''autosave'' \<and>
            \<not> pressed ev ''tool help'' \<and> hover (wm_ret ev) \<longrightarrow>
              ret = (if exit ctx then {''confirm''} else {}) \<and> nav c = nav ctx \<and>
              last (effects c) = WidgetClear)"
proof -
  obtain hp hn hi hdist where h: "h = (hp, hn, hi, hdist)" by (cases h)
  let ?c0 = "ctx\<lparr>hit_pos := hp, hit_norm := hn\<rparr>"
  let ?c1 = "autosave_step ev ?c0"
  have n: "navigating ev \<or> (timer ev \<and> nav ?c1)" using assms(1) by simp
  consider (c_window) "using_action ev ''window actions''"
    | (c_autosave) "\<not> using_action ev ''window actions''" "using_action ev ''autosave''"
    | (c_help) "\<not> using_action ev ''window actions''" "\<not> using_action ev ''autosave''"
        "pressed ev ''tool help''"
    | (c_hover) "\<not> using_action ev ''window actions''" "\<not> using_action ev ''autosave''"
        "\<not> pressed ev ''tool help''" "hover (wm_ret ev)"
    | (c_nav) "\<not> using_action ev ''window actions''" "\<not> using_action ev ''autosave''"
        "\<not> pressed ev ''tool help''" "\<not> hover (wm_ret ev)"
    by blast
  then show ?thesis
  proof cases
    case c_window
    then show ?thesis by (simp add: modal_def assms(2) h)
  next
    case c_autosave
    then show ?thesis by (simp add: modal_def assms(2) h)
  next
    case c_help
    then show ?thesis by (simp add: modal_def assms(2) h add_effects_def)
  next
    case c_hover
    then show ?thesis by (simp add: modal_def assms(2) h Let_def add_effects_def)
  next
    case c_nav
    then show ?thesis using n by (simp add: modal_def assms(2) h Let_def)
  qed
qed

text \<open>
  Claim C8 fails as stated: on an event that carries a navigation action and on which
  \<open>tool help\<close> is pressed, \<open>modal\<close> toggles the help and returns the empty result (stay in
  modal), not \<open>{'pass'}\<close>: the help check stands before the navigation check.
\<close>

theorem navigation_pass_counterexample:
  "navigating example_help_env \<and> pressed example_help_env ''tool help'' \<and>
   modal (\<lambda>xy. example_ray) example_sources (FSM example_ext example_tool_modal)
     example_help_env example_ctx =
     Inr ({}, example_ctx\<lparr>hit_pos := Some (0, 0, 2), hit_norm := Some (0, 0, - 1),
                effects := effects example_ctx @ [ToggleToolHelp]\<rparr>) \<and>
   ({} :: string set) \<noteq> {''pass''}"
  by (simp add: modal_def modal_main_def FSM_def dispatch_def autosave_step_def hover_def add_effects_def
      Let_def example_ext_def example_tool_modal_def raycast_sources_Point2D_def
      example_env_def example_help_env_def
      raycast_sources_Ray_def example_sources_def const_source_def hit_at_def no_hit_def
      is_hit_def hit_ok_def hit_dist_def example_ray_def example_ctx_eval)

theorem navigation_precedes_dispatch_witness:
  "navigating example_env \<and> pressed example_env ''T'' \<and>
   tool_shortcut (pressed example_env) (action_tool example_ext) = Some 7 \<and>
   raycast_sources_Point2D (\<lambda>xy. example_ray) example_sources (mouse example_env) =
     Inr (hit_at 2 2) \<and>
   modal (\<lambda>xy. example_ray) example_sources (FSM example_ext example_tool_modal)
     example_env example_ctx =
     Inr ({''pass''}, example_ctx\<lparr>nav := True, hit_pos := Some (0, 0, 2),
                hit_norm := Some (0, 0, - 1),
                effects := effects example_ctx @
                  [Unuse ''navigate'', SetCursor ''HAND'', WidgetClear]\<rparr>) \<and>
   tool example_ctx = 1 \<and>
   modal (\<lambda>xy. example_ray) example_sources (FSM example_ext example_tool_modal)
     example_still_env example_ctx =
     Inr ({}, example_ctx\<lparr>tool := 7, hit_pos := Some (0, 0, 2), hit_norm := Some (0, 0, - 1),
                effects := effects example_ctx @
                  [ToolStart 7, ToolUpdateOptions 7, ToolUpdate 7, ToolSelectionMin 7,
                   ToolSelectionMax 7]\<rparr>) \<and>
   navigating example_hover_env \<and> hover (wm_ret example_hover_env) \<and>
   modal (\<lambda>xy. example_ray) example_sources (FSM example_ext example_tool_modal)
     example_hover_env example_ctx =
     Inr ({}, example_ctx\<lparr>hit_pos := Some (0, 0, 2), hit_norm := Some (0, 0, - 1),
                effects := effects example_ctx @ [WidgetClear]\<rparr>) \<and>
   modal (\<lambda>xy. example_ray) example_sources (FSM example_ext example_tool_modal)
     example_hover_env (example_ctx\<lparr>exit := True\<rparr>) =
     Inr ({''confirm''}, example_ctx\<lparr>exit := True, hit_pos := Some (0, 0, 2),
                hit_norm := Some (0, 0, - 1),
                effects := effects example_ctx @ [WidgetClear]\<rparr>) \<and>
   navigating example_help_env \<and> pressed example_help_env ''tool help'' \<and>
   modal (\<lambda>xy. example_ray) example_sources (FSM example_ext example_tool_modal)
     example_help_env example_ctx =
     Inr ({}, example_ctx\<lparr>hit_pos := Some (0, 0, 2), hit_norm := Some (0, 0, - 1),
                effects := effects example_ctx @ [ToggleToolHelp]\<rparr>)"
proof -
  have r: "raycast_sources_Point2D (\<lambda>xy. example_ray) example_sources (mouse example_env) =
     Inr (hit_at 2 2)"
    by (simp add: example_env_def raycast_sources_Point2D_def
        raycast_sources_Ray_def example_sources_def const_source_def hit_at_def no_hit_def
      is_hit_def hit_ok_def hit_dist_def example_ray_def)
  have n: "navigating example_env \<or> (timer example_env \<and> nav example_ctx)"
    by (simp add: example_env_def)
  have rh: "raycast_sources_Point2D (\<lambda>xy. example_ray) example_sources (mouse example_hover_env) =
     Inr (hit_at 2 2)"
    "raycast_sources_Point2D (\<lambda>xy. example_ray) example_sources (mouse example_help_env) =
     Inr (hit_at 2 2)"
    using r by (simp_all add: example_hover_env_def example_help_env_def example_env_def)
  have nh: "navigating example_hover_env \<or> (timer example_hover_env \<and> nav example_ctx)"
    "navigating example_hover_env \<or>
       (timer example_hover_env \<and> nav (example_ctx\<lparr>exit := True\<rparr>))"
    "navigating example_help_env \<or> (timer example_help_env \<and> nav example_ctx)"
    by (simp_all add: example_hover_env_def example_help_env_def example_env_def)
  from navigation_precedes_dispatch[OF n r, of "FSM example_ext example_tool_modal" Map.empty]
    navigation_precedes_dispatch[OF nh(1) rh(1), of "FSM example_ext example_tool_modal" Map.empty]
    navigation_precedes_dispatch[OF nh(2) rh(1), of "FSM example_ext example_tool_modal" Map.empty]
    navigation_precedes_dispatch[OF nh(3) rh(2), of "FSM example_ext example_tool_modal" Map.empty]
  show ?thesis
    by (simp add: modal_def modal_main_def FSM_def dispatch_def autosave_step_def hover_def add_effects_def
      Let_def example_ext_def example_tool_modal_def raycast_sources_Point2D_def
      example_env_def example_still_env_def example_hover_env_def example_help_env_def
      raycast_sources_Ray_def example_sources_def const_source_def hit_at_def no_hit_def
      is_hit_def hit_ok_def hit_dist_def example_ray_def example_ctx_eval set_tool_def)
qed

end
